theory Spec2Isabelle
  imports Complex_Main "HOL-Library.Char_ord" "HOL-Library.List_Lexorder"
begin

section \<open>Python values used by the contact-sheet compositor\<close>

text \<open>
  The compositor (\<^verbatim>\<open>make_contact_sheet.py\<close>) computes with Python's unbounded integers and
  with Python floats, which are IEEE 754 binary64 numbers. Every exception the script can raise
  on the paths modelled here is a value of \<open>exn\<close>; a computation that may raise returns
  \<open>exn + 'a\<close> with \<open>Inl\<close> for the exception. A \<^verbatim>\<open>ValueError\<close> whose message quotes a
  value of the input has a constructor of its own that keeps the value: \<open>InvalidLiteral\<close>
  (\<^verbatim>\<open>invalid literal for int() with base b\<close>), \<open>DigitLimit\<close> (the literal has more digits than
  the interpreter converts), \<open>InvalidHexColor\<close> and \<open>FontSizeError\<close> are \<^verbatim>\<open>ValueError\<close>s.
  \<open>ImageOpenError\<close> and \<open>SaveError\<close> stand for whatever Pillow raises when it cannot open or
  write an image.
\<close>

datatype exn =
    ValueError string
  | InvalidLiteral nat "nat list"
  | DigitLimit nat
  | InvalidHexColor "nat list"
  | FontSizeError int
  | SystemExit string
  | OverflowError
  | ZeroDivisionError
  | IndexError
  | ImageOpenError
  | CalledProcessError
  | SaveError

definition bind_exn :: "exn + 'a \<Rightarrow> ('a \<Rightarrow> exn + 'b) \<Rightarrow> exn + 'b" where
  "bind_exn m f = (case m of Inl e \<Rightarrow> Inl e | Inr v \<Rightarrow> f v)"

fun map_exn :: "('a \<Rightarrow> exn + 'b) \<Rightarrow> 'a list \<Rightarrow> exn + 'b list" where
  "map_exn f [] = Inr []"
| "map_exn f (x # xs) =
     (case f x of
        Inl e \<Rightarrow> Inl e
      | Inr y \<Rightarrow> (case map_exn f xs of Inl e \<Rightarrow> Inl e | Inr ys \<Rightarrow> Inr (y # ys)))"

subsection \<open>Binary64 arithmetic\<close>

text \<open>
  A finite double is a sign bit and a magnitude; the magnitude is kept as the rational number
  the double denotes. The sign is separate because Python distinguishes \<open>-0.0\<close> from \<open>0.0\<close>
  when it formats a float.
\<close>

datatype pyfloat = PyFloat (negative: bool) (magnitude: rat)

definition fval :: "pyfloat \<Rightarrow> rat" where
  "fval x = (if negative x then - magnitude x else magnitude x)"

text \<open>Round to the nearest integer, ties to the even one (IEEE roundTiesToEven).\<close>

definition round_half_even :: "rat \<Rightarrow> int" where
  "round_half_even x =
     (let f = \<lfloor>x\<rfloor>; d = x - of_int f
      in if d < 1 / 2 then f
         else if 1 / 2 < d then f + 1
         else if even f then f else f + 1)"

text \<open>The number of binary digits of a positive integer (\<^verbatim>\<open>int.bit_length\<close>).\<close>

function bit_length :: "int \<Rightarrow> nat" where
  "bit_length a = (if a \<le> 0 then 0 else Suc (bit_length (a div 2)))"
  by pat_completeness auto
termination
  by (relation "measure nat") auto

text \<open>
  \<open>binade x\<close> is the exponent \<open>e\<close> with \<open>2\<^sup>e \<le> x < 2\<^sup>e\<^sup>+\<^sup>1\<close> of a positive rational, found
  from the bit lengths of numerator and denominator.
\<close>

definition binade :: "rat \<Rightarrow> int" where
  "binade x =
     (let (a, b) = quotient_of x;
          e0 = int (bit_length a) - int (bit_length b)
      in if 2 powi e0 \<le> x then e0 else e0 - 1)"

text \<open>
  The unit in the last place of the binade of \<open>x\<close>: 53 significant bits, and the fixed
  spacing \<open>2\<^sup>-\<^sup>1\<^sup>0\<^sup>7\<^sup>4\<close> of the subnormal range below \<open>2\<^sup>-\<^sup>1\<^sup>0\<^sup>2\<^sup>2\<close>.
\<close>

definition ulp_exp :: "rat \<Rightarrow> int" where
  "ulp_exp x = max (binade x) (- 1022) - 52"

definition fl :: "rat \<Rightarrow> rat" where
  "fl x = (if x = 0 then 0
           else of_int (round_half_even (x / 2 powi ulp_exp x)) * 2 powi ulp_exp x)"

text \<open>
  \<open>to_double s m\<close> is the double nearest to the magnitude \<open>m \<ge> 0\<close> with sign \<open>s\<close>. A
  magnitude that rounds to \<open>2\<^sup>1\<^sup>0\<^sup>2\<^sup>4\<close> or more has no finite double. Python raises
  \<^verbatim>\<open>OverflowError\<close> for it in \<^verbatim>\<open>int / int\<close> and in the conversion of an \<^verbatim>\<open>int\<close> operand;
  a float product yields an infinity instead, which both \<^verbatim>\<open>round\<close> and \<^verbatim>\<open>int\<close>, the only
  consumers of a product in this script, reject with \<^verbatim>\<open>OverflowError\<close> as well.
\<close>

definition to_double :: "bool \<Rightarrow> rat \<Rightarrow> exn + pyfloat" where
  "to_double s m = (let r = fl m in if r < 2 powi 1024 then Inr (PyFloat s r) else Inl OverflowError)"

definition float_of_int :: "int \<Rightarrow> exn + pyfloat" where
  "float_of_int i = to_double (i < 0) (of_int \<bar>i\<bar>)"

definition truediv :: "int \<Rightarrow> int \<Rightarrow> exn + pyfloat" where
  "truediv a b =
     (if b = 0 then Inl ZeroDivisionError
      else to_double ((a < 0) \<noteq> (b < 0)) (of_int \<bar>a\<bar> / of_int \<bar>b\<bar>))"

definition fmul :: "pyfloat \<Rightarrow> pyfloat \<Rightarrow> exn + pyfloat" where
  "fmul x y = to_double (negative x \<noteq> negative y) (magnitude x * magnitude y)"

definition int_mul_float :: "int \<Rightarrow> pyfloat \<Rightarrow> exn + pyfloat" where
  "int_mul_float i x = bind_exn (float_of_int i) (\<lambda>fi. fmul fi x)"

text \<open>\<^verbatim>\<open>round(x)\<close> of a float is the nearest integer, ties to even; \<^verbatim>\<open>int(x)\<close> truncates.\<close>

definition float_round :: "pyfloat \<Rightarrow> int" where
  "float_round x = (if negative x then - round_half_even (magnitude x)
                    else round_half_even (magnitude x))"

definition float_trunc :: "pyfloat \<Rightarrow> int" where
  "float_trunc x = (if negative x then - \<lfloor>magnitude x\<rfloor> else \<lfloor>magnitude x\<rfloor>)"

text \<open>
  A value that is either an \<^verbatim>\<open>int\<close> or a \<^verbatim>\<open>float\<close>: the sampling step is the float
  \<^verbatim>\<open>(len(frames) - 1) / (total - 1)\<close> or the integer \<^verbatim>\<open>1\<close>.
\<close>

datatype pynum = PInt int | PFloat pyfloat

definition int_mul :: "int \<Rightarrow> pynum \<Rightarrow> exn + pynum" where
  "int_mul i v =
     (case v of
        PInt k \<Rightarrow> Inr (PInt (i * k))
      | PFloat x \<Rightarrow> bind_exn (int_mul_float i x) (\<lambda>p. Inr (PFloat p)))"

definition py_round :: "pynum \<Rightarrow> int" where
  "py_round v = (case v of PInt k \<Rightarrow> k | PFloat x \<Rightarrow> float_round x)"

section \<open>Frame selection\<close>

text \<open>
  Lines 97 to 102 of \<^verbatim>\<open>main\<close>: with \<open>n = len(frames)\<close> and \<open>total = cols * rows\<close>,
  \<^verbatim>\<open>
    if len(frames) < total:
        indices = list(range(len(frames)))
    else:
        step = (len(frames) - 1) / (total - 1) if total > 1 else 1
        indices = [int(round(i * step)) for i in range(total)]
  \<close>
\<close>

definition sampling_step :: "nat \<Rightarrow> int \<Rightarrow> exn + pynum" where
  "sampling_step n tot =
     (if 1 < tot then bind_exn (truediv (int n - 1) (tot - 1)) (\<lambda>s. Inr (PFloat s))
      else Inr (PInt 1))"

definition select_indices :: "nat \<Rightarrow> int \<Rightarrow> exn + int list" where
  "select_indices n tot =
     (if int n < tot then Inr (map int [0..<n])
      else bind_exn (sampling_step n tot) (\<lambda>step.
             map_exn (\<lambda>i. bind_exn (int_mul i step) (\<lambda>p. Inr (py_round p))) [0..tot - 1]))"

text \<open>
  Line 104, \<^verbatim>\<open>selected = [frames[i] for i in indices]\<close>: a Python list index counts from the
  end when negative and raises \<^verbatim>\<open>IndexError\<close> out of range.
\<close>

definition py_index :: "'a list \<Rightarrow> int \<Rightarrow> exn + 'a" where
  "py_index xs i =
     (if 0 \<le> i \<and> i < int (length xs) then Inr (xs ! nat i)
      else if i < 0 \<and> - int (length xs) \<le> i then Inr (xs ! nat (int (length xs) + i))
      else Inl IndexError)"

definition select_frames :: "'a list \<Rightarrow> int \<Rightarrow> exn + ('a list \<times> int list)" where
  "select_frames frames tot =
     bind_exn (select_indices (length frames) tot) (\<lambda>indices.
       bind_exn (map_exn (py_index frames) indices) (\<lambda>selected. Inr (selected, indices)))"

section \<open>Strings and integer literals\<close>

text \<open>
  The grid shape and the grid colour are Python strings, kept as lists of code points, since
  \<^verbatim>\<open>int\<close> reads the decimal digits and the white space of every script; \<open>ascii\<close> gives the
  code points of an ASCII literal. File names and messages are kept as byte strings.

  What the script takes from the Python runtime is a parameter: the white space and the
  decimal digits of the Unicode database (\<^verbatim>\<open>Py_UNICODE_ISSPACE\<close>, \<^verbatim>\<open>Py_UNICODE_TODECIMAL\<close>),
  \<^verbatim>\<open>str.lower\<close>, and the greatest number of digits that \<^verbatim>\<open>int\<close> converts
  (\<^verbatim>\<open>sys.get_int_max_str_digits()\<close>, where \<open>0\<close> is no limit).
\<close>

definition ascii :: "string \<Rightarrow> nat list" where
  "ascii s = map of_char s"

record runtime =
  uni_space :: "nat \<Rightarrow> bool"
  uni_decimal :: "nat \<Rightarrow> nat option"
  str_lower :: "nat list \<Rightarrow> nat list"
  max_str_digits :: nat

fun split_on :: "'a \<Rightarrow> 'a list \<Rightarrow> 'a list list" where
  "split_on c [] = [[]]"
| "split_on c (x # xs) =
     (if x = c then [] # split_on c xs
      else (case split_on c xs of [] \<Rightarrow> [[x]] | p # ps \<Rightarrow> (x # p) # ps))"

text \<open>
  \<^verbatim>\<open>int(s, b)\<close> first brings a string that is not ASCII into ASCII: white space becomes a
  blank, a decimal digit its ASCII digit, and the first character that is neither ends the
  string with a question mark.
\<close>

fun to_ascii_digits :: "runtime \<Rightarrow> nat list \<Rightarrow> nat list" where
  "to_ascii_digits rt [] = []"
| "to_ascii_digits rt (c # cs) =
     (if c < 127 then c # to_ascii_digits rt cs
      else if uni_space rt c then 32 # to_ascii_digits rt cs
      else (case uni_decimal rt c of
              None \<Rightarrow> [63]
            | Some d \<Rightarrow> (48 + d) # to_ascii_digits rt cs))"

definition ascii_form :: "runtime \<Rightarrow> nat list \<Rightarrow> nat list" where
  "ascii_form rt s = (if list_all (\<lambda>c. c < 128) s then s else to_ascii_digits rt s)"

text \<open>
  Then it reads, in this order: white space, one sign, with base 16 the prefix \<^verbatim>\<open>0x\<close> and
  one underscore after it, the longest run of digits and underscores, and white space up to
  the end. The run is cut at its underscores into groups of digits, none of which may be empty.
  A base that is not a power of two is subject to the limit on the number of digits, which
  Python applies to more than 640 digits only.
\<close>

definition is_space :: "nat \<Rightarrow> bool" where
  "is_space c = (c \<in> set [9, 10, 11, 12, 13, 32])"

definition digit_in :: "nat \<Rightarrow> nat \<Rightarrow> nat option" where
  "digit_in b c =
     (let d = (if 48 \<le> c \<and> c \<le> 57 then Some (c - 48)
               else if 97 \<le> c \<and> c \<le> 122 then Some (c - 87)
               else if 65 \<le> c \<and> c \<le> 90 then Some (c - 55)
               else None)
      in case d of None \<Rightarrow> None | Some k \<Rightarrow> if k < b then Some k else None)"

definition in_run :: "nat \<Rightarrow> nat \<Rightarrow> bool" where
  "in_run b c = (digit_in b c \<noteq> None \<or> c = 95)"

definition digits_value :: "nat \<Rightarrow> nat list \<Rightarrow> nat" where
  "digits_value b ds =
     foldl (\<lambda>n c. n * b + (case digit_in b c of None \<Rightarrow> 0 | Some k \<Rightarrow> k)) 0 ds"

definition skip_prefix :: "nat \<Rightarrow> nat list \<Rightarrow> nat list" where
  "skip_prefix b s =
     (if b = 16 \<and> (take 2 s = [48, 120] \<or> take 2 s = [48, 88])
      then (if take 1 (drop 2 s) = [95] then drop 3 s else drop 2 s)
      else s)"

definition over_digit_limit :: "runtime \<Rightarrow> nat \<Rightarrow> nat \<Rightarrow> bool" where
  "over_digit_limit rt b n =
     (b \<notin> set [2, 4, 8, 16, 32] \<and> 640 < n \<and> 0 < max_str_digits rt \<and> max_str_digits rt < n)"

definition py_int :: "runtime \<Rightarrow> nat \<Rightarrow> nat list \<Rightarrow> exn + int" where
  "py_int rt b s =
     (let t = dropWhile is_space (ascii_form rt s);
          (neg, u) = (case t of
                        [] \<Rightarrow> (False, t)
                      | c # cs \<Rightarrow> if c = 45 then (True, cs)
                                  else if c = 43 then (False, cs) else (False, t));
          r = skip_prefix b u;
          groups = split_on 95 (takeWhile (in_run b) r);
          n = digits_value b (concat groups)
      in if [] \<in> set groups then Inl (InvalidLiteral b s)
         else if over_digit_limit rt b (length (concat groups))
           then Inl (DigitLimit (length (concat groups)))
         else if dropWhile is_space (dropWhile (in_run b) r) \<noteq> [] then Inl (InvalidLiteral b s)
         else Inr (if neg then - int n else int n))"

text \<open>
  What the specification calls an integer, as text: white space, one optional sign, groups of
  decimal digits separated by single underscores, and white space, in the ASCII form of the
  string and within the limit on the number of digits; \<open>integer_text rt s v\<close> holds when \<open>s\<close>
  is such a text and \<open>v\<close> is the integer it denotes.
\<close>

definition decimal_digit :: "nat \<Rightarrow> bool" where
  "decimal_digit c = (48 \<le> c \<and> c \<le> 57)"

definition decimal_value :: "nat list \<Rightarrow> nat" where
  "decimal_value ds = foldl (\<lambda>n c. 10 * n + (c - 48)) 0 ds"

fun join_underscore :: "nat list list \<Rightarrow> nat list" where
  "join_underscore [] = []"
| "join_underscore [g] = g"
| "join_underscore (g # h # gs) = g @ 95 # join_underscore (h # gs)"

definition integer_text :: "runtime \<Rightarrow> nat list \<Rightarrow> int \<Rightarrow> bool" where
  "integer_text rt s v =
     (\<exists>lead sgn groups trail.
        ascii_form rt s = lead @ sgn @ join_underscore groups @ trail
      \<and> list_all is_space lead \<and> list_all is_space trail
      \<and> (sgn = [] \<or> sgn = [43] \<or> sgn = [45])
      \<and> groups \<noteq> [] \<and> list_all (\<lambda>g. g \<noteq> [] \<and> list_all decimal_digit g) groups
      \<and> \<not> (640 < length (concat groups) \<and> 0 < max_str_digits rt
             \<and> max_str_digits rt < length (concat groups))
      \<and> v = (if sgn = [45] then - int (decimal_value (concat groups))
             else int (decimal_value (concat groups))))"

text \<open>
  A grid shape as the specification has it: two such texts of positive integers on the two
  sides of the one delimiter \<open>x\<close> of the lower-cased string.
\<close>

definition grid_text :: "runtime \<Rightarrow> nat list \<Rightarrow> bool" where
  "grid_text rt g =
     (\<exists>cs rs cols rows.
        str_lower rt g = cs @ [120] @ rs
      \<and> integer_text rt cs cols \<and> integer_text rt rs rows \<and> 0 < cols \<and> 0 < rows)"

text \<open>\<^verbatim>\<open>str(i)\<close> of an integer.\<close>

function str_nat :: "nat \<Rightarrow> string" where
  "str_nat n = (if n < 10 then [''0123456789'' ! n]
                else str_nat (n div 10) @ [''0123456789'' ! (n mod 10)])"
  by pat_completeness auto
termination
  by (relation "measure id") auto

definition str_int :: "int \<Rightarrow> string" where
  "str_int i = (if i < 0 then CHR ''-'' # str_nat (nat (- i)) else str_nat (nat i))"

text \<open>
  \<^verbatim>\<open>f"{x:.2f}"\<close>: the decimal with two fraction digits nearest to the exact value of the
  double, ties to even, with the sign of the double (so \<^verbatim>\<open>-0.0\<close> prints as \<^verbatim>\<open>-0.00\<close>).
\<close>

definition format_2f :: "pyfloat \<Rightarrow> string" where
  "format_2f x =
     (let k = nat (round_half_even (magnitude x * 100))
      in (if negative x then ''-'' else '''') @ str_nat (k div 100) @ ''.''
         @ [''0123456789'' ! (k mod 100 div 10), ''0123456789'' ! (k mod 10)])"

section \<open>Command line and grid shape\<close>

text \<open>The namespace returned by \<^verbatim>\<open>parse_args\<close>.\<close>

record args =
  image_dir :: string
  scene_name :: "string option"
  output_arg :: "string option"
  grid :: "nat list"
  max_width :: int
  fps :: "int option"
  grid_color :: "nat list"
  label_size :: int

text \<open>
  \<^verbatim>\<open>parse_grid\<close>, lines 61 to 70. Every \<^verbatim>\<open>ValueError\<close> of the \<^verbatim>\<open>try\<close> block, from the unpacking
  of the two fields or from \<^verbatim>\<open>int\<close>, is replaced by the message about the format.
\<close>

definition parse_grid :: "runtime \<Rightarrow> nat list \<Rightarrow> exn + (int \<times> int)" where
  "parse_grid rt g =
     (case (case split_on 120 (str_lower rt g) of
              [cols_str, rows_str] \<Rightarrow>
                bind_exn (py_int rt 10 cols_str) (\<lambda>cols.
                  bind_exn (py_int rt 10 rows_str) (\<lambda>rows. Inr (cols, rows)))
            | _ \<Rightarrow> Inl (ValueError ''unpack'')) of
        Inl _ \<Rightarrow> Inl (ValueError ''Grid must be in COLSxROWS format, e.g., 4x4.'')
      | Inr (cols, rows) \<Rightarrow>
          if cols \<le> 0 \<or> rows \<le> 0 then Inl (ValueError ''Grid dimensions must be positive.'')
          else Inr (cols, rows))"

text \<open>\<^verbatim>\<open>hex_to_rgb\<close>, lines 73 to 78.\<close>

definition hex_to_rgb :: "runtime \<Rightarrow> nat list \<Rightarrow> exn + (int \<times> int \<times> int)" where
  "hex_to_rgb rt hex_color0 =
     (let hex_color = dropWhile (\<lambda>c. c = 35) hex_color0
      in if length hex_color \<noteq> 6 then Inl (InvalidHexColor hex_color)
         else bind_exn (py_int rt 16 (take 2 hex_color)) (\<lambda>r.
                bind_exn (py_int rt 16 (take 2 (drop 2 hex_color))) (\<lambda>g.
                  bind_exn (py_int rt 16 (take 2 (drop 4 hex_color))) (\<lambda>b. Inr (r, g, b)))))"

section \<open>The world a run observes\<close>

text \<open>
  What one run of the script reads from its environment: the Python runtime, whether
  \<^verbatim>\<open>image_dir\<close> is a directory, the names of its entries in the order the operating system
  lists them, whether Pillow can be imported, what \<^verbatim>\<open>Image.open\<close> finds at a path (the pixel
  size, or nothing when the file cannot be opened as an image), whether \<^verbatim>\<open>ImageFont.truetype\<close>
  rejects a font size with an exception that the script does not catch (newer Pillow releases
  raise \<^verbatim>\<open>ValueError\<close> for a size that is not positive), where \<^verbatim>\<open>shutil.which\<close> finds the
  ImageMagick commands, whether the external command exits with status zero, and how
  \<^verbatim>\<open>sheet.save\<close> ends at a path.

  \<^verbatim>\<open>sheet.save\<close> completes, or raises before it opens the file (a file name extension that
  Pillow does not know, a directory that is missing), or raises after it has opened the file
  for writing, which empties a file that was there (an image mode that the format cannot
  hold, a full disk).
\<close>

datatype save_result = SaveCompletes | SaveRefused | SaveBreaksOff

record world =
  python :: runtime
  dir_exists :: bool
  listing :: "string list"
  pil_available :: bool
  image_size :: "string \<Rightarrow> (int \<times> int) option"
  font_rejected :: "int \<Rightarrow> bool"
  which_magick :: "string option"
  which_montage :: "string option"
  command_succeeds :: "string list \<Rightarrow> bool"
  save_outcome :: "string \<Rightarrow> save_result"

text \<open>
  Paths as \<^verbatim>\<open>pathlib\<close> writes them on POSIX: a root (\<^verbatim>\<open>/\<close>, or \<^verbatim>\<open>//\<close> for exactly two leading
  slashes) and the components between slashes, without the empty ones and without \<^verbatim>\<open>.\<close>;
  \<^verbatim>\<open>..\<close> is kept. \<open>path_str s\<close> is \<^verbatim>\<open>str(Path(s))\<close> and \<open>path_join d f\<close> is
  \<^verbatim>\<open>str(Path(d) / f)\<close>, in which a right operand with a root replaces the left one.
\<close>

definition path_root :: "string \<Rightarrow> string" where
  "path_root s = (if take 2 s = ''//'' \<and> take 3 s \<noteq> ''///'' then ''//''
                  else if take 1 s = ''/'' then ''/'' else [])"

definition path_parts :: "string \<Rightarrow> string list" where
  "path_parts s = filter (\<lambda>p. p \<noteq> [] \<and> p \<noteq> ''.'') (split_on CHR ''/'' s)"

fun join_slash :: "string list \<Rightarrow> string" where
  "join_slash [] = []"
| "join_slash [p] = p"
| "join_slash (p # q # ps) = p @ CHR ''/'' # join_slash (q # ps)"

definition path_text :: "string \<Rightarrow> string list \<Rightarrow> string" where
  "path_text rt ps = (if rt = [] \<and> ps = [] then ''.'' else rt @ join_slash ps)"

definition path_str :: "string \<Rightarrow> string" where
  "path_str s = path_text (path_root s) (path_parts s)"

definition path_join :: "string \<Rightarrow> string \<Rightarrow> string" where
  "path_join d f = (if path_root f \<noteq> [] then path_str f
                    else path_text (path_root d) (path_parts d @ path_parts f))"

definition endswith :: "string \<Rightarrow> string \<Rightarrow> bool" where
  "endswith s suf = (length suf \<le> length s \<and> drop (length s - length suf) s = suf)"

text \<open>Line 93, \<^verbatim>\<open>frames = sorted(image_dir.glob("*.png"))\<close>, as the list of entry names.\<close>

definition discover :: "world \<Rightarrow> string list" where
  "discover w = sort (filter (\<lambda>name. endswith name ''.png'') (listing w))"

text \<open>Lines 107 to 113: the output file name.\<close>

definition output_filename :: "args \<Rightarrow> string" where
  "output_filename a =
     (case output_arg a of
        Some out \<Rightarrow> if out \<noteq> [] then out else
          (case scene_name a of
             Some sc \<Rightarrow> if sc \<noteq> [] then sc @ ''_sheet.png'' else ''contact_sheet.png''
           | None \<Rightarrow> ''contact_sheet.png'')
      | None \<Rightarrow>
          (case scene_name a of
             Some sc \<Rightarrow> if sc \<noteq> [] then sc @ ''_sheet.png'' else ''contact_sheet.png''
           | None \<Rightarrow> ''contact_sheet.png''))"

section \<open>Composition of the sheet\<close>

text \<open>
  The geometry of the sheet the Pillow path draws: one \<open>cell\<close> per selected frame, in the order
  of the loop of lines 167 to 192, and the positions of the grid lines of lines 195 to 202.
\<close>

record cell =
  frame_idx :: int
  frame_name :: string
  row :: int
  col :: int
  cell_x :: int
  cell_y :: int
  paste_x :: int
  paste_y :: int
  img_w :: int
  img_h :: int
  label_x :: int
  label_y :: int
  label_text :: string

record sheet =
  cell_w :: int
  cell_h :: int
  label_height :: int
  sheet_w :: int
  sheet_h :: int
  grid_rgb :: "int \<times> int \<times> int"
  cells :: "cell list"
  vlines :: "int list"
  hlines :: "int list"

definition grid_line_width :: int where
  "grid_line_width = 1"

text \<open>\<^verbatim>\<open>max(...)\<close> of a sequence; Python raises \<^verbatim>\<open>ValueError\<close> on an empty one.\<close>

fun py_max :: "int list \<Rightarrow> exn + int" where
  "py_max [] = Inl (ValueError ''max() arg is an empty sequence'')"
| "py_max (x # xs) = Inr (fold max xs x)"

text \<open>
  Lines 138 to 143: \<^verbatim>\<open>scale = cell_w / im.width\<close>, then the size
  \<^verbatim>\<open>(max(1, int(im.width * scale)), max(1, int(im.height * scale)))\<close> of the resized image.
\<close>

definition resized_size :: "int \<Rightarrow> int \<times> int \<Rightarrow> exn + (int \<times> int)" where
  "resized_size cw sz =
     (case sz of (width, height) \<Rightarrow>
        bind_exn (truediv cw width) (\<lambda>scale.
          bind_exn (int_mul_float width scale) (\<lambda>pw.
            bind_exn (int_mul_float height scale) (\<lambda>ph.
              Inr (max 1 (float_trunc pw), max 1 (float_trunc ph))))))"

text \<open>Lines 186 to 189: the label under a cell.\<close>

definition label_for :: "int option \<Rightarrow> int \<Rightarrow> string \<Rightarrow> exn + string" where
  "label_for rate idx name =
     (case rate of
        None \<Rightarrow> Inr name
      | Some r \<Rightarrow>
          if r \<noteq> 0
          then bind_exn (truediv idx r) (\<lambda>time_sec. Inr (name @ '' ('' @ format_2f time_sec @ ''s)''))
          else Inr name)"

text \<open>The body of the loop of lines 167 to 192 for the frame at position \<open>idx\<close> of the sheet.\<close>

definition place_cell ::
  "args \<Rightarrow> int \<Rightarrow> int \<Rightarrow> int \<Rightarrow> int \<Rightarrow> int \<times> (int \<times> string) \<times> (int \<times> int) \<Rightarrow> exn + cell" where
  "place_cell a cols cw ch lh entry =
     (case entry of (idx, (fidx, name), (w, h)) \<Rightarrow>
        let r = idx div cols;
            c = idx mod cols;
            cx = c * cw + (c + 1) * grid_line_width;
            cy = r * (ch + lh) + (r + 1) * grid_line_width
        in bind_exn (label_for (fps a) fidx name) (\<lambda>text.
             Inr \<lparr> frame_idx = fidx, frame_name = name, row = r, col = c,
                   cell_x = cx, cell_y = cy,
                   paste_x = cx + (cw - w) div 2, paste_y = cy + (ch - h) div 2,
                   img_w = w, img_h = h,
                   label_x = cx + 2, label_y = cy + ch + 2, label_text = text \<rparr>))"

text \<open>
  Lines 137 to 202 without the pixels: from the selected frames (name and index in the full
  list) and the sizes of their images to the sheet. \<^verbatim>\<open>Image.new\<close> rejects a negative size;
  the font is loaded after the sheet is created and before the grid colour is read. Which
  font is found changes how a label is drawn, not where.
\<close>

definition compose ::
  "args \<Rightarrow> world \<Rightarrow> int \<Rightarrow> int \<Rightarrow> (int \<times> string) list \<Rightarrow> (int \<times> int) list \<Rightarrow> exn + sheet" where
  "compose a w cols rows selected sizes =
     bind_exn (py_max (map fst sizes)) (\<lambda>widest.
       let cw = min (max_width a) widest
       in bind_exn (map_exn (resized_size cw) sizes) (\<lambda>resized.
            bind_exn (py_max (map snd resized)) (\<lambda>ch.
              let lh = label_size a + 8;
                  sw = cols * cw + (cols + 1) * grid_line_width;
                  sh = rows * (ch + lh) + (rows + 1) * grid_line_width
              in if sw < 0 \<or> sh < 0 then Inl (ValueError ''Width and height must be >= 0'')
                 else if font_rejected w (label_size a) then Inl (FontSizeError (label_size a))
                 else bind_exn (hex_to_rgb (python w) (grid_color a)) (\<lambda>rgb.
                      bind_exn (map_exn (place_cell a cols cw ch lh)
                                  (zip [0..int (length resized) - 1] (zip selected resized)))
                        (\<lambda>cs. Inr \<lparr> cell_w = cw, cell_h = ch, label_height = lh,
                                     sheet_w = sw, sheet_h = sh, grid_rgb = rgb, cells = cs,
                                     vlines = map (\<lambda>c. c * cw + c * grid_line_width) [0..cols],
                                     hlines = map (\<lambda>r. r * (ch + lh) + r * grid_line_width)
                                                [0..rows] \<rparr>)))))"

section \<open>The run\<close>

text \<open>
  The input and output actions of a run, in order. Messages printed to the terminal and the
  font files read are not recorded. \<open>Save\<close> is a \<^verbatim>\<open>sheet.save(output_path)\<close> that completes
  and writes the sheet; \<open>Truncate\<close> is one that opens the output file and then raises; \<open>Run\<close>
  is the external montage command, which writes the output file itself.
\<close>

datatype event =
    IsDir string
  | ImportPIL
  | Glob string
  | Which string
  | OpenImage string
  | Run "string list"
  | Save string sheet
  | Truncate string

text \<open>The actions that write to the output file.\<close>

fun is_write :: "event \<Rightarrow> bool" where
  "is_write (Save p sh) = True"
| "is_write (Truncate p) = True"
| "is_write (Run cmd) = True"
| "is_write ev = False"

text \<open>Lines 117 to 134: the ImageMagick fallback.\<close>

definition fallback :: "args \<Rightarrow> world \<Rightarrow> int \<Rightarrow> int \<Rightarrow> string list \<Rightarrow> (exn + int) \<times> event list" where
  "fallback a w cols rows selected =
     (let probes = [Which ''magick'', Which ''montage''];
          launcher = (case which_magick w of
                        Some m \<Rightarrow> if m \<noteq> [] then Some [m, ''montage''] else
                          (case which_montage w of
                             Some t \<Rightarrow> if t \<noteq> [] then Some [t] else None
                           | None \<Rightarrow> None)
                      | None \<Rightarrow>
                          (case which_montage w of
                             Some t \<Rightarrow> if t \<noteq> [] then Some [t] else None
                           | None \<Rightarrow> None))
      in case launcher of
           None \<Rightarrow>
             (Inl (SystemExit ''Pillow not installed and ImageMagick not found (magick/montage).''),
              probes)
         | Some cmd0 \<Rightarrow>
             let geometry = str_int (max_width a) @ ''x'' @ str_int (max_width a) @ ''+0+0'';
                 cmd = cmd0 @ map (path_join (image_dir a)) selected
                       @ [''-tile'', str_int cols @ ''x'' @ str_int rows, ''-geometry'', geometry,
                          path_join (image_dir a) (output_filename a)]
             in if command_succeeds w cmd then (Inr 0, probes @ [Run cmd])
                else (Inl CalledProcessError, probes @ [Run cmd]))"

text \<open>Line 136: the images are opened in order; the first that fails ends the run.\<close>

fun open_images :: "world \<Rightarrow> string list \<Rightarrow> (exn + (int \<times> int) list) \<times> event list" where
  "open_images w [] = (Inr [], [])"
| "open_images w (p # ps) =
     (case image_size w p of
        None \<Rightarrow> (Inl ImageOpenError, [OpenImage p])
      | Some sz \<Rightarrow>
          (case open_images w ps of
             (Inl e, tr) \<Rightarrow> (Inl e, OpenImage p # tr)
           | (Inr szs, tr) \<Rightarrow> (Inr (sz # szs), OpenImage p # tr)))"

text \<open>Lines 136 to 206: the Pillow path.\<close>

definition render ::
  "args \<Rightarrow> world \<Rightarrow> int \<Rightarrow> int \<Rightarrow> string list \<Rightarrow> int list \<Rightarrow> (exn + int) \<times> event list" where
  "render a w cols rows selected indices =
     (case open_images w (map (path_join (image_dir a)) selected) of
        (Inl e, tr) \<Rightarrow> (Inl e, tr)
      | (Inr sizes, tr) \<Rightarrow>
          (case compose a w cols rows (zip indices selected) sizes of
             Inl e \<Rightarrow> (Inl e, tr)
           | Inr sh \<Rightarrow>
               let output_path = path_join (image_dir a) (output_filename a)
               in (case save_outcome w output_path of
                     SaveCompletes \<Rightarrow> (Inr 0, tr @ [Save output_path sh])
                   | SaveRefused \<Rightarrow> (Inl SaveError, tr)
                   | SaveBreaksOff \<Rightarrow> (Inl SaveError, tr @ [Truncate output_path]))))"

text \<open>\<^verbatim>\<open>main\<close>: the result (the exit status \<open>0\<close>, or the exception that ends the run) and the actions.\<close>

definition main :: "args \<Rightarrow> world \<Rightarrow> (exn + int) \<times> event list" where
  "main a w =
     (case parse_grid (python w) (grid a) of
        Inl e \<Rightarrow> (Inl e, [])
      | Inr (cols, rows) \<Rightarrow>
          if \<not> dir_exists w
          then (Inl (SystemExit (''Image directory not found: '' @ path_str (image_dir a))),
                [IsDir (path_str (image_dir a))])
          else
            let tr = [IsDir (path_str (image_dir a)), ImportPIL, Glob (path_str (image_dir a))];
                frames = discover w
            in if frames = []
               then (Inl (SystemExit (''No PNG frames found in '' @ path_str (image_dir a))), tr)
               else
                 (case select_frames frames (cols * rows) of
                    Inl e \<Rightarrow> (Inl e, tr)
                  | Inr (selected, indices) \<Rightarrow>
                      (case (if pil_available w then render a w cols rows selected indices
                             else fallback a w cols rows selected) of
                         (res, tr') \<Rightarrow> (res, tr @ tr'))))"

text \<open>
  The entries of \<^verbatim>\<open>image_dir\<close> after a run. The output is a new entry of the directory when
  it was written and its path, relative to the directory, is a single component other than
  \<^verbatim>\<open>..\<close>; a longer path (into a subdirectory, through \<^verbatim>\<open>..\<close>) and a path with a root are
  not added: where such a path ends depends on the directories and links on the way, which
  the world does not record. A run that fails is taken to leave the entries as they were
  (Pillow removes a file that a broken-off \<^verbatim>\<open>sheet.save\<close> has created).
\<close>

definition writes_output :: "(exn + int) \<times> event list \<Rightarrow> bool" where
  "writes_output r = (case fst r of Inl _ \<Rightarrow> False | Inr _ \<Rightarrow> True)"

definition output_entry :: "args \<Rightarrow> string option" where
  "output_entry a =
     (if path_root (output_filename a) \<noteq> [] then None
      else (case path_parts (output_filename a) of
              [name] \<Rightarrow> if name = ''..'' then None else Some name
            | _ \<Rightarrow> None))"

definition listing_after :: "args \<Rightarrow> world \<Rightarrow> string list" where
  "listing_after a w =
     (case output_entry a of
        None \<Rightarrow> listing w
      | Some name \<Rightarrow>
          if writes_output (main a w) \<and> name \<notin> set (listing w)
          then listing w @ [name] else listing w)"

section \<open>A sample run\<close>

text \<open>
  A runtime with the white space and the decimal digits of Unicode 14, the digits as the
  first code points of their blocks of ten, and the limit of 4300 digits. Its \<open>str_lower\<close>
  changes the ASCII capitals only, which is what \<^verbatim>\<open>str.lower\<close> does on the ASCII strings
  used below.
\<close>

definition digit_blocks :: "nat list" where
  "digit_blocks =
     [48, 1632, 1776, 1984, 2406, 2534, 2662, 2790, 2918, 3046, 3174, 3302, 3430, 3558, 3664,
      3792, 3872, 4160, 4240, 6112, 6160, 6470, 6608, 6784, 6800, 6992, 7088, 7232, 7248,
      42528, 43216, 43264, 43472, 43504, 43600, 44016, 65296, 66720, 68912, 69734, 69872,
      69942, 70096, 70384, 70736, 70864, 71248, 71360, 71472, 71904, 72016, 72784, 73040,
      73120, 92768, 92864, 93008, 120782, 120792, 120802, 120812, 120822, 123200, 123632,
      125264, 130032]"

definition sample_python :: runtime where
  "sample_python =
     \<lparr> uni_space = (\<lambda>c. c \<in> set [9, 10, 11, 12, 13, 28, 29, 30, 31, 32, 133, 160, 5760, 8192,
                                   8193, 8194, 8195, 8196, 8197, 8198, 8199, 8200, 8201, 8202,
                                   8232, 8233, 8239, 8287, 12288]),
       uni_decimal = (\<lambda>c. case find (\<lambda>b. b \<le> c \<and> c < b + 10) digit_blocks of
                             None \<Rightarrow> None
                           | Some b \<Rightarrow> Some (c - b)),
       str_lower = map (\<lambda>c. if 65 \<le> c \<and> c \<le> 90 then c + 32 else c),
       max_str_digits = 4300 \<rparr>"

text \<open>
  Six frames and a text file in a directory, listed in no particular order, every frame 320 by
  180 pixels; the grid is 2 by 1 and the frame rate 2.
\<close>

definition sample_args :: args where
  "sample_args =
     \<lparr> image_dir = ''frames'', scene_name = None, output_arg = None, grid = ascii ''2x1'',
       max_width = 320, fps = Some 2, grid_color = ascii ''808080'', label_size = 12 \<rparr>"

definition sample_world :: world where
  "sample_world =
     \<lparr> python = sample_python,
       dir_exists = True,
       listing = [''frame_0003.png'', ''frame_0000.png'', ''notes.txt'', ''frame_0005.png'',
                  ''frame_0001.png'', ''frame_0004.png'', ''frame_0002.png''],
       pil_available = True,
       image_size = (\<lambda>p. Some (320, 180)),
       font_rejected = (\<lambda>size. size \<le> 0),
       which_magick = None,
       which_montage = None,
       command_succeeds = (\<lambda>cmd. False),
       save_outcome = (\<lambda>p. SaveCompletes) \<rparr>"

definition sample_sheet :: sheet where
  "sample_sheet =
     \<lparr> cell_w = 320, cell_h = 180, label_height = 20, sheet_w = 643, sheet_h = 202,
       grid_rgb = (128, 128, 128),
       cells =
         [\<lparr> frame_idx = 0, frame_name = ''frame_0000.png'', row = 0, col = 0,
            cell_x = 1, cell_y = 1, paste_x = 1, paste_y = 1, img_w = 320, img_h = 180,
            label_x = 3, label_y = 183, label_text = ''frame_0000.png (0.00s)'' \<rparr>,
          \<lparr> frame_idx = 5, frame_name = ''frame_0005.png'', row = 0, col = 1,
            cell_x = 322, cell_y = 1, paste_x = 322, paste_y = 1, img_w = 320, img_h = 180,
            label_x = 324, label_y = 183, label_text = ''frame_0005.png (2.50s)'' \<rparr>],
       vlines = [0, 321, 642],
       hlines = [0, 201] \<rparr>"

text \<open>The same run with \<^verbatim>\<open>--fps 0\<close> draws the file names alone.\<close>

definition zero_rate_sheet :: sheet where
  "zero_rate_sheet =
     sample_sheet \<lparr> cells := map (\<lambda>c. c \<lparr> label_text := frame_name c \<rparr>) (cells sample_sheet) \<rparr>"

text \<open>The sample run asked to write \<^verbatim>\<open>sheet.jpg\<close>.\<close>

definition jpg_args :: args where
  "jpg_args = sample_args \<lparr> output_arg := Some ''sheet.jpg'' \<rparr>"





section \<open>Properties of the binary64 rounding\<close>

lemma bit_length_pos: "0 < a \<Longrightarrow> bit_length a = Suc (bit_length (a div 2))"
  by (subst bit_length.simps) simp

lemma bit_length_nonpos: "a \<le> 0 \<Longrightarrow> bit_length a = 0"
  by (subst bit_length.simps) simp

lemma bit_length_bounds:
  "0 < a \<Longrightarrow> 2 ^ (bit_length a - 1) \<le> a \<and> a < 2 ^ bit_length a"
proof (induction a rule: bit_length.induct)
  case (1 a)
  show ?case
  proof (cases "a div 2 = 0")
    case True
    with \<open>0 < a\<close> have "a = 1" by presburger
    then show ?thesis by (simp add: bit_length_pos bit_length_nonpos)
  next
    case False
    with \<open>0 < a\<close> have pos: "0 < a div 2" by presburger
    from 1 pos have ih: "2 ^ (bit_length (a div 2) - 1) \<le> a div 2" "a div 2 < 2 ^ bit_length (a div 2)"
      by auto
    from pos have "bit_length (a div 2) = Suc (bit_length (a div 2) - 1)"
      by (simp add: bit_length_pos)
    then obtain k where k: "bit_length (a div 2) = Suc k" by blast
    from ih k have "2 * 2 ^ k \<le> a" "a < 2 * 2 ^ Suc k" by auto
    with \<open>0 < a\<close> k show ?thesis by (simp add: bit_length_pos)
  qed
qed

lemma rhe_of_int: "round_half_even (of_int k) = k"
  by (simp add: round_half_even_def)

lemma rhe_lower: "x - 1 / 2 \<le> of_int (round_half_even x)"
  unfolding round_half_even_def Let_def by (auto; linarith)

lemma rhe_upper: "of_int (round_half_even x) \<le> x + 1 / 2"
  unfolding round_half_even_def Let_def by (auto; linarith)

lemma rhe_mono: "x \<le> y \<Longrightarrow> round_half_even x \<le> round_half_even y"
proof -
  assume xy: "x \<le> y"
  have fl: "\<lfloor>x\<rfloor> \<le> \<lfloor>y\<rfloor>" using xy by (rule floor_mono)
  show ?thesis
  proof (cases "\<lfloor>x\<rfloor> = \<lfloor>y\<rfloor>")
    case True
    then show ?thesis using xy unfolding round_half_even_def Let_def by auto
  next
    case False
    with fl have "\<lfloor>x\<rfloor> + 1 \<le> \<lfloor>y\<rfloor>" by simp
    moreover have "round_half_even x \<le> \<lfloor>x\<rfloor> + 1" unfolding round_half_even_def Let_def by auto
    moreover have "\<lfloor>y\<rfloor> \<le> round_half_even y" unfolding round_half_even_def Let_def by auto
    ultimately show ?thesis by linarith
  qed
qed

lemma two_powi_pos: "0 < (2::rat) powi e"
  by (simp add: zero_less_power_int)

lemma two_powi_less_iff: "(2::rat) powi m < 2 powi n \<longleftrightarrow> m < n"
proof
  assume h: "(2::rat) powi m < 2 powi n"
  show "m < n"
  proof (rule ccontr)
    assume "\<not> m < n"
    then have "n \<le> m" by simp
    then have "(2::rat) powi n \<le> 2 powi m" by (rule power_int_increasing) simp
    with h show False by simp
  qed
next
  assume "m < n"
  then show "(2::rat) powi m < 2 powi n" by (rule power_int_strict_increasing) simp
qed

lemma two_powi_le_iff: "(2::rat) powi m \<le> 2 powi n \<longleftrightarrow> m \<le> n"
  using two_powi_less_iff[of n m] by (simp add: not_less[symmetric])

lemma bit_length_ge1: "0 < a \<Longrightarrow> 1 \<le> bit_length a"
  by (simp add: bit_length_pos)

lemma binade_bounds:
  assumes "0 < x"
  shows "2 powi binade x \<le> x \<and> x < 2 powi (binade x + 1)"
proof -
  obtain a b where q: "quotient_of x = (a, b)" by force
  then have b: "0 < b" by (rule quotient_of_denom_pos)
  have x: "x = of_int a / of_int b" using q by (rule quotient_of_div)
  have a: "0 < a" using assms x b by (simp add: zero_less_divide_iff)
  define la lb where "la = bit_length a" and "lb = bit_length b"
  have la1: "1 \<le> la" and lb1: "1 \<le> lb"
    using a b by (simp_all add: la_def lb_def bit_length_ge1)
  have "a < 2 ^ la" "2 ^ (la - 1) \<le> a" "b < 2 ^ lb" "2 ^ (lb - 1) \<le> b"
    using bit_length_bounds[OF a] bit_length_bounds[OF b] by (simp_all add: la_def lb_def)
  then have A: "rat_of_int a < 2 ^ la" "2 ^ (la - 1) \<le> rat_of_int a"
    and B: "rat_of_int b < 2 ^ lb" "2 ^ (lb - 1) \<le> rat_of_int b"
    by (metis of_int_less_iff of_int_le_iff of_int_power of_int_numeral)+
  have e1: "(2::rat) powi (int la - int lb + 1) = 2 ^ la / 2 ^ (lb - 1)"
  proof -
    have h: "int la - int lb + 1 = int la - int (lb - 1)" using lb1 by simp
    have "(2::rat) powi (int la - int (lb - 1)) = 2 powi int la / 2 powi int (lb - 1)"
      by (rule power_int_diff) simp
    then show ?thesis by (simp only: h power_int_of_nat)
  qed
  have e2: "(2::rat) powi (int la - int lb - 1) = 2 ^ (la - 1) / 2 ^ lb"
  proof -
    have h: "int la - int lb - 1 = int (la - 1) - int lb" using la1 by simp
    have "(2::rat) powi (int (la - 1) - int lb) = 2 powi int (la - 1) / 2 powi int lb"
      by (rule power_int_diff) simp
    then show ?thesis by (simp only: h power_int_of_nat)
  qed
  have up: "x < 2 powi (int la - int lb + 1)"
    unfolding e1 x using A B a b by (intro frac_less) simp_all
  have lo: "2 powi (int la - int lb - 1) \<le> x"
    unfolding e2 x using A B a b by (intro frac_le) simp_all
  show ?thesis
  proof (cases "2 powi (int la - int lb) \<le> x")
    case True
    then have "binade x = int la - int lb" by (simp add: binade_def q la_def lb_def)
    with True up show ?thesis by simp
  next
    case False
    then have "binade x = int la - int lb - 1" by (simp add: binade_def q la_def lb_def)
    with False lo show ?thesis by simp
  qed
qed

lemma binade_unique:
  assumes "2 powi e \<le> x" "x < 2 powi (e + 1)"
  shows "binade x = e"
proof -
  have pos: "0 < x" using assms(1) two_powi_pos[of e] by linarith
  note bb = binade_bounds[OF pos]
  have "(2::rat) powi e < 2 powi (binade x + 1)" using assms(1) bb by linarith
  then have 1: "e < binade x + 1" by (simp only: two_powi_less_iff)
  have "(2::rat) powi binade x < 2 powi (e + 1)" using assms(2) bb by linarith
  then have 2: "binade x < e + 1" by (simp only: two_powi_less_iff)
  from 1 2 show ?thesis by simp
qed


lemma rhe_nonneg: "0 \<le> x \<Longrightarrow> 0 \<le> round_half_even x"
  using rhe_mono[of 0 x] rhe_of_int[of 0] by simp

lemma fl_pos_eq:
  "0 < x \<Longrightarrow> fl x = of_int (round_half_even (x / 2 powi ulp_exp x)) * 2 powi ulp_exp x"
  by (simp add: fl_def)

lemma fl_nonneg: "0 \<le> x \<Longrightarrow> 0 \<le> fl x"
proof (cases "x = 0")
  case True
  then show ?thesis by (simp add: fl_def)
next
  case False
  assume "0 \<le> x"
  with False have pos: "0 < x" by simp
  have "0 \<le> x / 2 powi ulp_exp x" using pos two_powi_pos[of "ulp_exp x"] by simp
  then have "0 \<le> round_half_even (x / 2 powi ulp_exp x)" by (rule rhe_nonneg)
  then show ?thesis using two_powi_pos[of "ulp_exp x"] by (simp add: fl_pos_eq[OF pos])
qed

lemma fl_error:
  assumes "0 < x"
  shows "\<bar>fl x - x\<bar> \<le> 2 powi ulp_exp x / 2"
proof -
  define p where "p = (2::rat) powi ulp_exp x"
  have p: "0 < p" by (simp add: p_def two_powi_pos)
  define r where "r = rat_of_int (round_half_even (x / p))"
  have "x / p - 1 / 2 \<le> r" "r \<le> x / p + 1 / 2"
    by (simp_all add: r_def rhe_lower rhe_upper)
  then have "(x / p - 1 / 2) * p \<le> r * p" "r * p \<le> (x / p + 1 / 2) * p"
    using p by (simp_all only: mult_le_cancel_right_pos)
  then have "x - p / 2 \<le> r * p" "r * p \<le> x + p / 2"
    using p by (simp_all add: algebra_simps)
  moreover have "fl x = r * p" by (simp add: fl_pos_eq[OF assms] r_def p_def)
  ultimately have "\<bar>fl x - x\<bar> \<le> p / 2" by (simp only: abs_le_iff) linarith
  then show ?thesis by (simp only: p_def)
qed

lemma binade_mono:
  assumes "0 < x" "x \<le> y"
  shows "binade x \<le> binade y"
proof -
  have y: "0 < y" using assms by simp
  have "(2::rat) powi binade x < 2 powi (binade y + 1)"
    using binade_bounds[OF assms(1)] binade_bounds[OF y] assms(2) by linarith
  then show ?thesis by (simp only: two_powi_less_iff)
qed

lemma powi_split: "(2::rat) powi (a + b) = 2 powi a * 2 powi b"
  by (rule power_int_add) simp

lemma fl_upper_binade:
  assumes "0 < x"
  shows "fl x \<le> 2 powi (ulp_exp x + 53)"
proof -
  define u where "u = ulp_exp x"
  have p: "0 < (2::rat) powi u" by (rule two_powi_pos)
  have "binade x + 1 \<le> u + 53" by (simp add: u_def ulp_exp_def)
  then have "(2::rat) powi (binade x + 1) \<le> 2 powi (u + 53)" by (simp only: two_powi_le_iff)
  with binade_bounds[OF assms] have "x \<le> 2 powi (u + 53)" by linarith
  also have "\<dots> = 2 ^ 53 * 2 powi u" by (simp add: powi_split)
  finally have "x / 2 powi u \<le> 2 ^ 53" using p by (simp add: pos_divide_le_eq)
  then have "round_half_even (x / 2 powi u) \<le> round_half_even (rat_of_int (2 ^ 53))"
    by (intro rhe_mono) simp
  then have "round_half_even (x / 2 powi u) \<le> 2 ^ 53" by (simp only: rhe_of_int)
  then have "rat_of_int (round_half_even (x / 2 powi u)) \<le> 2 ^ 53"
    by (metis of_int_le_iff of_int_numeral of_int_power)
  then have "rat_of_int (round_half_even (x / 2 powi u)) * 2 powi u \<le> 2 ^ 53 * 2 powi u"
    using p by (simp only: mult_le_cancel_right_pos)
  then show ?thesis by (simp add: fl_pos_eq[OF assms] u_def[symmetric] powi_split)
qed

lemma fl_lower_binade:
  assumes "0 < x" "- 1022 \<le> binade x"
  shows "2 powi binade x \<le> fl x"
proof -
  define u where "u = ulp_exp x"
  have u: "binade x = u + 52" using assms(2) by (simp add: u_def ulp_exp_def)
  have p: "0 < (2::rat) powi u" by (rule two_powi_pos)
  have "2 ^ 52 * 2 powi u \<le> x" using binade_bounds[OF assms(1)] by (simp add: u powi_split)
  then have "2 ^ 52 \<le> x / 2 powi u" using p by (simp add: pos_le_divide_eq)
  then have "round_half_even (rat_of_int (2 ^ 52)) \<le> round_half_even (x / 2 powi u)"
    by (intro rhe_mono) simp
  then have "2 ^ 52 \<le> round_half_even (x / 2 powi u)" by (simp only: rhe_of_int)
  then have "2 ^ 52 \<le> rat_of_int (round_half_even (x / 2 powi u))"
    by (metis of_int_le_iff of_int_numeral of_int_power)
  then have "2 ^ 52 * 2 powi u \<le> rat_of_int (round_half_even (x / 2 powi u)) * 2 powi u"
    using p by (simp only: mult_le_cancel_right_pos)
  then show ?thesis by (simp add: fl_pos_eq[OF assms(1)] u_def[symmetric] u powi_split)
qed

lemma fl_mono:
  assumes "0 \<le> x" "x \<le> y"
  shows "fl x \<le> fl y"
proof (cases "x = 0")
  case True
  then show ?thesis using fl_nonneg[of y] assms by (simp add: fl_def)
next
  case False
  with assms have x: "0 < x" and y: "0 < y" by simp_all
  have b: "binade x \<le> binade y" using x assms(2) by (rule binade_mono)
  then have ule: "ulp_exp x \<le> ulp_exp y" by (simp add: ulp_exp_def)
  show ?thesis
  proof (cases "ulp_exp x = ulp_exp y")
    case True
    have p: "0 < (2::rat) powi ulp_exp y" by (rule two_powi_pos)
    have "x / 2 powi ulp_exp y \<le> y / 2 powi ulp_exp y"
      using assms(2) p by (simp only: divide_right_mono less_imp_le)
    then have "round_half_even (x / 2 powi ulp_exp y) \<le> round_half_even (y / 2 powi ulp_exp y)"
      by (rule rhe_mono)
    then have "rat_of_int (round_half_even (x / 2 powi ulp_exp y)) * 2 powi ulp_exp y
      \<le> rat_of_int (round_half_even (y / 2 powi ulp_exp y)) * 2 powi ulp_exp y"
      using p by (simp only: mult_le_cancel_right_pos of_int_le_iff)
    then show ?thesis by (simp add: fl_pos_eq[OF x] fl_pos_eq[OF y] True)
  next
    case False
    with ule have lt: "ulp_exp x < ulp_exp y" by simp
    then have by1: "- 1022 \<le> binade y" and step: "ulp_exp x + 53 \<le> binade y"
      by (simp_all add: ulp_exp_def max_def split: if_splits)
    have "fl x \<le> 2 powi (ulp_exp x + 53)" using x by (rule fl_upper_binade)
    also have "\<dots> \<le> 2 powi binade y" using step by (simp only: two_powi_le_iff)
    also have "\<dots> \<le> fl y" using y by1 by (rule fl_lower_binade)
    finally show ?thesis .
  qed
qed

lemma fl_exact:
  assumes m: "0 < m" "m < 2 ^ 53" and j: "- 1074 \<le> j"
  shows "fl (rat_of_int m * 2 powi j) = rat_of_int m * 2 powi j"
proof -
  define x where "x = rat_of_int m * 2 powi j"
  have x: "0 < x" using m(1) two_powi_pos[of j] by (simp add: x_def)
  define u where "u = ulp_exp x"
  have "rat_of_int m < 2 ^ 53" using m(2) by (metis of_int_less_iff of_int_numeral of_int_power)
  then have "x < 2 ^ 53 * 2 powi j" using two_powi_pos[of j] by (simp add: x_def)
  also have "\<dots> = 2 powi (j + 53)" by (simp add: powi_split)
  finally have "(2::rat) powi binade x < 2 powi (j + 53)" using binade_bounds[OF x] by linarith
  then have "binade x < j + 53" by (simp only: two_powi_less_iff)
  with j have uj: "u \<le> j" by (simp add: u_def ulp_exp_def)
  define k where "k = nat (j - u)"
  have jk: "j = u + int k" using uj by (simp add: k_def)
  have "x / 2 powi u = rat_of_int m * 2 ^ k"
    using two_powi_pos[of u] by (simp add: x_def jk powi_split)
  also have "\<dots> = rat_of_int (m * 2 ^ k)" by simp
  finally have "round_half_even (x / 2 powi u) = m * 2 ^ k" by (simp only: rhe_of_int)
  then have "fl x = rat_of_int (m * 2 ^ k) * 2 powi u"
    by (simp add: fl_pos_eq[OF x] u_def[symmetric])
  also have "\<dots> = x" by (simp add: x_def jk powi_split)
  finally show ?thesis by (simp add: x_def)
qed

lemma floor_rat_numeral: "\<lfloor>(numeral a :: rat) / numeral b\<rfloor> = numeral a div numeral b"
  using floor_divide_of_int_eq[of "numeral a" "numeral b", where ?'a = rat] by simp

lemma fl_eval:
  assumes "2 powi e \<le> x" "x < 2 powi (e + 1)" "- 1022 \<le> e"
  shows "fl x = rat_of_int (round_half_even (x / 2 powi (e - 52))) * 2 powi (e - 52)"
proof -
  have pos: "0 < x" using assms(1) two_powi_pos[of e] by linarith
  have "binade x = e" using assms(1,2) by (rule binade_unique)
  then have "ulp_exp x = e - 52" using assms(3) by (simp add: ulp_exp_def)
  then show ?thesis by (simp add: fl_pos_eq[OF pos])
qed

lemma fl_of_int:
  assumes "0 \<le> m" "m < 2 ^ 53"
  shows "fl (rat_of_int m) = rat_of_int m"
proof (cases "m = 0")
  case True
  then show ?thesis by (simp add: fl_def)
next
  case False
  with assms have "0 < m" by simp
  from fl_exact[OF this assms(2), of 0] show ?thesis by simp
qed


section \<open>Properties of the frame selection\<close>

lemma map_exn_Inr:
  "(\<And>x. x \<in> set xs \<Longrightarrow> f x = Inr (g x)) \<Longrightarrow> map_exn f xs = Inr (map g xs)"
  by (induction xs) simp_all

lemma map_exn_length: "map_exn f xs = Inr ys \<Longrightarrow> length ys = length xs"
  by (induction xs arbitrary: ys) (auto split: sum.splits)

lemma map_exn_nth:
  "map_exn f xs = Inr ys \<Longrightarrow> i < length xs \<Longrightarrow> f (xs ! i) = Inr (ys ! i)"
proof (induction xs arbitrary: ys i)
  case Nil
  then show ?case by simp
next
  case (Cons x xs)
  then show ?case by (cases i) (auto split: sum.splits)
qed

lemma bind_exn_Inr [simp]: "bind_exn (Inr v) f = f v"
  by (simp add: bind_exn_def)

lemma bind_exn_Inl [simp]: "bind_exn (Inl e) f = Inl e"
  by (simp add: bind_exn_def)

lemma bind_exn_eq_Inr:
  "bind_exn m f = Inr y \<longleftrightarrow> (\<exists>v. m = Inr v \<and> f v = Inr y)"
  by (cases m) simp_all

lemma two_powi_1024_gt: "x \<le> 2 ^ 53 \<Longrightarrow> x < (2::rat) powi 1024"
proof -
  assume "x \<le> 2 ^ 53"
  moreover have "(2::rat) ^ 53 < 2 powi 1024" by simp
  ultimately show ?thesis by linarith
qed

lemma to_double_ok: "fl m < 2 powi 1024 \<Longrightarrow> to_double s m = Inr (PyFloat s (fl m))"
  by (simp add: to_double_def)

lemma float_of_int_small:
  assumes "0 \<le> i" "i < 2 ^ 53"
  shows "float_of_int i = Inr (PyFloat False (rat_of_int i))"
proof -
  have f: "fl (rat_of_int i) = rat_of_int i" using assms by (rule fl_of_int)
  have "rat_of_int i \<le> 2 ^ 53" using assms(2)
    by (metis less_imp_le of_int_le_iff of_int_numeral of_int_power)
  then have "fl (rat_of_int i) < 2 powi 1024" unfolding f by (rule two_powi_1024_gt)
  then show ?thesis using assms(1) f by (simp add: float_of_int_def to_double_ok)
qed


lemma fl_one: "fl 1 = 1"
  using fl_of_int[of 1] by simp

lemma of_int_le_2p: "i \<le> 2 ^ k \<Longrightarrow> rat_of_int i \<le> 2 ^ k"
  by (metis of_int_le_iff of_int_numeral of_int_power)

lemma of_int_less_2p: "i < 2 ^ k \<Longrightarrow> rat_of_int i < 2 ^ k"
  by (metis of_int_less_iff of_int_numeral of_int_power)

text \<open>The rounded step and the last product, for at most \<open>2\<^sup>5\<^sup>0\<close> frames.\<close>

lemma step_bounds:
  assumes d: "1 \<le> d" and dN: "d \<le> N" and N: "N \<le> 2 ^ 50"
  defines "q \<equiv> rat_of_int N / rat_of_int d"
  shows "1 \<le> fl q" and "fl q \<le> rat_of_int N" and "\<bar>rat_of_int d * fl q - rat_of_int N\<bar> \<le> 1 / 8"
proof -
  have dpos: "0 < rat_of_int d" using d by simp
  have q1: "1 \<le> q" using d dN by (simp add: q_def pos_le_divide_eq)
  have qN: "q \<le> rat_of_int N"
  proof -
    have "rat_of_int N \<le> rat_of_int N * rat_of_int d"
      using d dN by (simp add: mult_le_cancel_left1)
    then show ?thesis using dpos by (simp add: q_def pos_divide_le_eq)
  qed
  have Nlt: "N < 2 ^ 53"
  proof -
    have "(2::int) ^ 50 < 2 ^ 53" by simp
    with N show ?thesis by linarith
  qed
  have N0: "0 \<le> N" using d dN by simp
  show "1 \<le> fl q" using fl_mono[of 1 q] q1 by (simp add: fl_one)
  show "fl q \<le> rat_of_int N" using fl_mono[of q "rat_of_int N"] q1 qN fl_of_int[OF N0 Nlt] by simp
  have qpos: "0 < q" using q1 by simp
  have b0: "0 \<le> binade q"
  proof -
    have "(2::rat) powi 0 < 2 powi (binade q + 1)" using binade_bounds[OF qpos] q1 by simp
    then have "0 < binade q + 1" by (simp only: two_powi_less_iff)
    then show ?thesis by simp
  qed
  then have u: "ulp_exp q = binade q - 52" by (simp add: ulp_exp_def)
  have "(2::rat) powi (binade q - 52) = 2 powi binade q / 2 powi 52"
    by (rule power_int_diff) simp
  then have "(2::rat) powi ulp_exp q / 2 = 2 powi binade q / 2 ^ 53" by (simp add: u)
  also have "\<dots> \<le> q / 2 ^ 53" using binade_bounds[OF qpos] by (simp add: divide_right_mono)
  finally have err: "\<bar>fl q - q\<bar> \<le> q / 2 ^ 53" using fl_error[OF qpos] by linarith
  have dq: "rat_of_int d * q = rat_of_int N" using dpos by (simp add: q_def)
  have "\<bar>rat_of_int d * fl q - rat_of_int N\<bar> = rat_of_int d * \<bar>fl q - q\<bar>"
    using dpos by (simp add: dq[symmetric] right_diff_distrib[symmetric] abs_mult)
  also have "\<dots> \<le> rat_of_int d * (q / 2 ^ 53)"
    using err dpos by (simp only: mult_le_cancel_left_pos)
  also have "\<dots> = rat_of_int N / 2 ^ 53" using dq by simp
  also have "\<dots> \<le> 2 ^ 50 / 2 ^ 53" using of_int_le_2p[OF N] by (simp add: divide_right_mono)
  also have "\<dots> = 1 / 8" by simp
  finally show "\<bar>rat_of_int d * fl q - rat_of_int N\<bar> \<le> 1 / 8" .
qed

lemma fl_quarter:
  assumes "0 < m" "m < 2 ^ 53"
  shows "fl (rat_of_int m / 4) = rat_of_int m / 4"
  using fl_exact[OF assms, of "-2"] by simp

lemma rhe_near:
  assumes "rat_of_int N - 1 / 4 \<le> x" "x \<le> rat_of_int N + 1 / 4"
  shows "round_half_even x = N"
proof -
  have a: "round_half_even (rat_of_int N - 1 / 4) = N"
  proof -
    have "\<lfloor>rat_of_int N - 1 / 4\<rfloor> = N - 1" by (simp add: floor_unique)
    then show ?thesis by (simp add: round_half_even_def Let_def)
  qed
  have b: "round_half_even (rat_of_int N + 1 / 4) = N"
  proof -
    have "\<lfloor>rat_of_int N + 1 / 4\<rfloor> = N" by (simp add: floor_unique)
    then show ?thesis by (simp add: round_half_even_def Let_def)
  qed
  from rhe_mono[OF assms(1)] rhe_mono[OF assms(2)] a b show ?thesis by simp
qed

lemma last_product:
  assumes d: "1 \<le> d" and dN: "d \<le> N" and N: "N < 2 ^ 50"
  defines "s \<equiv> fl (rat_of_int N / rat_of_int d)"
  shows "fl (rat_of_int d * s) \<le> rat_of_int N + 1 / 4"
    and "round_half_even (fl (rat_of_int d * s)) = N"
proof -
  have N': "N \<le> 2 ^ 50" using N by simp
  note sb = step_bounds[OF d dN N', folded s_def]
  have lo: "rat_of_int N - 1 / 4 \<le> rat_of_int d * s" and hi: "rat_of_int d * s \<le> rat_of_int N + 1 / 4"
    using sb(3) by linarith+
  have N1: "1 \<le> N" using d dN by simp
  have m1: "0 < 4 * N - 1" "4 * N - 1 < 2 ^ 53" and m2: "0 < 4 * N + 1" "4 * N + 1 < 2 ^ 53"
    using N N1 by simp_all
  have e1: "fl (rat_of_int N - 1 / 4) = rat_of_int N - 1 / 4"
    using fl_quarter[OF m1] by (simp add: diff_divide_distrib)
  have e2: "fl (rat_of_int N + 1 / 4) = rat_of_int N + 1 / 4"
    using fl_quarter[OF m2] by (simp add: add_divide_distrib)
  have nn: "0 \<le> rat_of_int N - 1 / 4" using N1 by simp
  have "rat_of_int N - 1 / 4 \<le> fl (rat_of_int d * s)"
    using fl_mono[OF nn lo] by (simp only: e1)
  moreover have pos: "0 \<le> rat_of_int d * s" using nn lo by linarith
  have up: "fl (rat_of_int d * s) \<le> rat_of_int N + 1 / 4"
    using fl_mono[OF pos hi] by (simp only: e2)
  ultimately show "round_half_even (fl (rat_of_int d * s)) = N" by (intro rhe_near)
  show "fl (rat_of_int d * s) \<le> rat_of_int N + 1 / 4" by (rule up)
qed


lemma truediv_step:
  assumes d: "1 \<le> d" and dN: "d \<le> N" and N: "N < 2 ^ 50"
  shows "truediv N d = Inr (PyFloat False (fl (rat_of_int N / rat_of_int d)))"
proof -
  have N': "N \<le> 2 ^ 50" using N by simp
  have "fl (rat_of_int N / rat_of_int d) \<le> rat_of_int N" using step_bounds(2)[OF d dN N'] .
  also have "\<dots> \<le> 2 ^ 53"
  proof -
    have "N \<le> 2 ^ 53" using N by simp
    then show ?thesis by (rule of_int_le_2p)
  qed
  finally have "fl (rat_of_int N / rat_of_int d) < 2 powi 1024" by (rule two_powi_1024_gt)
  then have "to_double False (rat_of_int N / rat_of_int d)
      = Inr (PyFloat False (fl (rat_of_int N / rat_of_int d)))" by (rule to_double_ok)
  moreover have "\<bar>N\<bar> = N" "\<bar>d\<bar> = d" "\<not> N < 0" "\<not> d < 0" "d \<noteq> 0" using d dN by simp_all
  ultimately show ?thesis by (simp add: truediv_def)
qed

lemma int_mul_step:
  assumes d: "1 \<le> d" and dN: "d \<le> N" and N: "N < 2 ^ 50" and i: "0 \<le> i" "i \<le> d"
  defines "s \<equiv> fl (rat_of_int N / rat_of_int d)"
  shows "int_mul i (PFloat (PyFloat False s)) = Inr (PFloat (PyFloat False (fl (rat_of_int i * s))))"
proof -
  have N': "N \<le> 2 ^ 50" using N by simp
  have s1: "1 \<le> s" using step_bounds(1)[OF d dN N'] by (simp add: s_def)
  have i53: "i < 2 ^ 53" using i dN N by simp
  have fi: "float_of_int i = Inr (PyFloat False (rat_of_int i))"
    using i(1) i53 by (rule float_of_int_small)
  have "rat_of_int i * s \<le> rat_of_int d * s" using i(2) s1 by (simp add: mult_right_mono)
  moreover have "0 \<le> rat_of_int i * s" using i(1) s1 by simp
  ultimately have "fl (rat_of_int i * s) \<le> fl (rat_of_int d * s)" by (intro fl_mono)
  also have "\<dots> \<le> rat_of_int N + 1 / 4" using last_product(1)[OF d dN N] by (simp add: s_def)
  also have "\<dots> \<le> 2 ^ 53"
  proof -
    have "rat_of_int N < 2 ^ 50" using N by (rule of_int_less_2p)
    moreover have "(2::rat) ^ 50 + 1 / 4 \<le> 2 ^ 53" by simp
    ultimately show ?thesis by linarith
  qed
  finally have "fl (rat_of_int i * s) < 2 powi 1024" by (rule two_powi_1024_gt)
  then have "to_double False (rat_of_int i * s) = Inr (PyFloat False (fl (rat_of_int i * s)))"
    by (rule to_double_ok)
  then show ?thesis by (simp add: int_mul_def int_mul_float_def fi fmul_def)
qed

lemma select_indices_sampled:
  assumes "1 < tot" "tot \<le> int n" "n \<le> 2 ^ 50"
  shows "select_indices n tot =
    Inr (map (\<lambda>i. round_half_even
                 (fl (rat_of_int i * fl (rat_of_int (int n - 1) / rat_of_int (tot - 1)))))
          [0..tot - 1])"
proof -
  define N d where "N = int n - 1" and "d = tot - 1"
  have d: "1 \<le> d" and dN: "d \<le> N" using assms(1,2) by (simp_all add: N_def d_def)
  have "int n \<le> 2 ^ 50" using assms(3) by (metis of_nat_le_iff of_nat_numeral of_nat_power)
  then have N: "N < 2 ^ 50" by (simp add: N_def)
  define s where "s = fl (rat_of_int N / rat_of_int d)"
  have step: "sampling_step n tot = Inr (PFloat (PyFloat False s))"
    using assms(1) truediv_step[OF d dN N] by (simp add: sampling_step_def N_def d_def s_def)
  have each: "bind_exn (int_mul i (PFloat (PyFloat False s))) (\<lambda>p. Inr (py_round p))
      = Inr (round_half_even (fl (rat_of_int i * s)))" if "i \<in> set [0..tot - 1]" for i
  proof -
    from that have "0 \<le> i" "i \<le> d" by (simp_all add: d_def)
    from int_mul_step[OF d dN N this] show ?thesis
      by (simp add: s_def py_round_def float_round_def)
  qed
  have "\<not> int n < tot" using assms(2) by simp
  then show ?thesis
    using map_exn_Inr[of "[0..tot - 1]", OF each] step
    by (simp add: select_indices_def N_def d_def s_def)
qed

lemma select_indices_single:
  assumes "1 \<le> n"
  shows "select_indices n 1 = Inr [0]"
  using assms by (simp add: select_indices_def sampling_step_def int_mul_def py_round_def)

lemma select_indices_all:
  assumes "int n < tot"
  shows "select_indices n tot = Inr (map int [0..<n])"
  using assms by (simp add: select_indices_def)


lemma fl_zero: "fl 0 = 0"
  by (simp add: fl_def)

lemma fl_numeral: "numeral k < (2::int) ^ 53 \<Longrightarrow> fl (numeral k) = numeral k"
  using fl_of_int[of "numeral k"] by simp

lemma rhe_numeral: "round_half_even (numeral k) = numeral k"
  using rhe_of_int[of "numeral k"] by simp

lemma rhe_zero: "round_half_even 0 = 0"
  using rhe_of_int[of 0] by simp

lemma py_index_in_range:
  "0 \<le> i \<Longrightarrow> i < int (length xs) \<Longrightarrow> py_index xs i = Inr (xs ! nat i)"
  by (simp add: py_index_def)

lemma select_frames_all:
  assumes "int (length frames) < tot"
  shows "select_frames frames tot = Inr (frames, map int [0..<length frames])"
proof -
  have "map_exn (py_index frames) (map int [0..<length frames])
      = Inr (map (\<lambda>i. frames ! nat i) (map int [0..<length frames]))"
    by (rule map_exn_Inr) (auto simp: py_index_def)
  also have "map (\<lambda>i. frames ! nat i) (map int [0..<length frames]) = frames"
    by (simp add: o_def map_nth)
  finally show ?thesis using assms by (simp add: select_frames_def select_indices_all)
qed

lemma sorted_map_upto:
  assumes "\<And>i j. 0 \<le> i \<Longrightarrow> i \<le> j \<Longrightarrow> g i \<le> (g j :: int)"
  shows "sorted (map g [0..k])"
proof -
  have "sorted_wrt (\<lambda>x y. g x \<le> g y) [0..k]"
    by (rule sorted_wrt_mono_rel[of "[0..k]" "(\<le>)"]) (auto intro: assms)
  then show ?thesis by (simp only: sorted_map)
qed

lemma sampled_indices_props:
  assumes "1 < tot" "tot \<le> int n" "n \<le> 2 ^ 50"
  shows "\<exists>indices. select_indices n tot = Inr indices \<and> sorted indices
           \<and> hd indices = 0 \<and> last indices = int n - 1 \<and> indices \<noteq> []"
proof -
  define N d where "N = int n - 1" and "d = tot - 1"
  have d: "1 \<le> d" and dN: "d \<le> N" using assms(1,2) by (simp_all add: N_def d_def)
  have "int n \<le> 2 ^ 50" using assms(3) by (metis of_nat_le_iff of_nat_numeral of_nat_power)
  then have N: "N < 2 ^ 50" by (simp add: N_def)
  define s where "s = fl (rat_of_int N / rat_of_int d)"
  define g where "g = (\<lambda>i. round_half_even (fl (rat_of_int i * s)))"
  have sel: "select_indices n tot = Inr (map g [0..d])"
    using select_indices_sampled[OF assms] by (simp add: g_def s_def N_def d_def)
  have s1: "1 \<le> s" using step_bounds(1)[OF d dN] N by (simp add: s_def)
  have mono: "g i \<le> g j" if "0 \<le> i" "i \<le> j" for i j
  proof -
    have "rat_of_int i * s \<le> rat_of_int j * s" using that s1 by (simp add: mult_right_mono)
    moreover have "0 \<le> rat_of_int i * s" using that s1 by simp
    ultimately have "fl (rat_of_int i * s) \<le> fl (rat_of_int j * s)" by (intro fl_mono)
    then show ?thesis unfolding g_def by (rule rhe_mono)
  qed
  have srt: "sorted (map g [0..d])" using mono by (rule sorted_map_upto)
  have ne: "[0..d] \<noteq> []" using d by simp
  have "hd [0..d] = 0" using d by (simp add: upto_rec1)
  then have h: "hd (map g [0..d]) = g 0" using ne by (simp add: hd_map)
  have "last [0..d] = d" using d by (simp add: upto_rec2)
  then have l: "last (map g [0..d]) = g d" using ne by (simp add: last_map)
  have g0: "g 0 = 0" by (simp add: g_def fl_zero rhe_zero)
  have gd: "g d = N" using last_product(2)[OF d dN N] by (simp add: g_def s_def)
  show ?thesis using sel srt h l g0 gd ne by (simp add: N_def)
qed

text \<open>
  The step is rounded to a double before it is multiplied. For 30 frames on a grid of 5 by 3 the
  exact product \<open>7 * (29 / 14)\<close> is \<open>14.5\<close>, which rounds to \<open>14\<close>; the double product is
  \<open>14.500000000000002\<close>, and the script selects index \<open>15\<close> at position \<open>7\<close>.
\<close>

lemma step_29_14: "fl (29 / 14) = 4664442471205157 / 2251799813685248"
  using fl_eval[of 1 "29 / 14"] by (simp add: round_half_even_def Let_def floor_rat_numeral)

lemma product_is_a_double:
  "fl (7 * (4664442471205157 / 2251799813685248)) = 8162774324609025 / 562949953421312"
  using fl_eval[of 3 "7 * (4664442471205157 / 2251799813685248)"]
  by (simp add: round_half_even_def Let_def floor_rat_numeral)

lemma ties_follow_the_doubles:
  "(\<exists>indices. select_indices 30 (5 * 3) = Inr indices \<and> indices ! 7 = 15)
   \<and> round_half_even (7 * (29 / 14)) = 14"
proof -
  have "select_indices 30 (5 * 3)
      = Inr (map (\<lambda>i. round_half_even (fl (rat_of_int i * fl (29 / 14)))) [0..14])"
    using select_indices_sampled[of "5 * 3" 30] by simp
  moreover have "map (\<lambda>i. round_half_even (fl (rat_of_int i * fl (29 / 14)))) [0..14] ! 7
      = round_half_even (fl (7 * fl (29 / 14)))" by simp
  moreover have "round_half_even (fl (7 * fl (29 / 14))) = 15"
    unfolding step_29_14 product_is_a_double by (simp add: round_half_even_def Let_def floor_rat_numeral)
  moreover have "round_half_even (7 * (29 / 14)) = 14" by (simp add: round_half_even_def Let_def floor_rat_numeral)
  ultimately show ?thesis by simp
qed

text \<open>
  Claim C1. With \<open>n\<close> frames and a grid of \<open>c\<close> columns and \<open>r\<close> rows whose capacity
  \<open>c * r\<close> does not exceed \<open>n\<close>, the run selects the single index \<open>0\<close> when the capacity is
  one, and otherwise the indices \<open>round(i * s)\<close> for \<open>i = 0, \<dots>, c * r - 1\<close> with the step
  \<open>s = (n - 1) / (c * r - 1)\<close>. Quotient and product are the double-precision operations of
  the script, \<open>round\<close> rounds ties to even, and no operation raises; the number of frames is
  at most \<open>2\<^sup>5\<^sup>0\<close>, far beyond any directory. Ten frames on a 2 by 2 grid give
  \<open>[0, 3, 6, 9]\<close>.
\<close>

theorem selection_formula:
  assumes "0 < c" "0 < r" "c * r \<le> int n" "n \<le> 2 ^ 50"
  shows "select_indices n (c * r) =
    Inr (if c * r = 1 then [0]
         else map (\<lambda>i. round_half_even
                (fl (rat_of_int i * fl (rat_of_int (int n - 1) / rat_of_int (c * r - 1)))))
              [0..c * r - 1])"
proof (cases "c * r = 1")
  case True
  with assms(3) have "1 \<le> n" by simp
  then show ?thesis using True by (simp add: select_indices_single)
next
  case False
  have "0 < c * r" using assms(1,2) by simp
  with False have "1 < c * r" by simp
  then show ?thesis using False select_indices_sampled[OF _ assms(3,4)] by simp
qed

theorem selection_formula_witness:
  "(0::int) < 2 \<and> 2 * 2 \<le> int 10 \<and> (10::nat) \<le> 2 ^ 50
   \<and> select_indices 10 (2 * 2) = Inr [0, 3, 6, 9]"
  using selection_formula[of 2 2 10]
  by (simp add: fl_numeral fl_zero rhe_numeral rhe_zero upto_rec1)

text \<open>
  Claim C2, as stated, fails for the grid 1 by 1: with two frames the capacity \<open>1\<close> does
  not exceed the number of frames, the selection is \<open>[0]\<close>, and its last element is not the
  index \<open>1\<close> of the last frame.
\<close>

theorem single_cell_grid_counterexample:
  "1 * 1 \<le> int 2 \<and> (1::nat) < 2 \<and> select_indices 2 (1 * 1) = Inr [0]
   \<and> last [0::int] \<noteq> int 2 - 1"
  by (simp add: select_indices_single)

text \<open>
  Claim C2, amended. For a grid of capacity \<open>c * r > 1\<close> and at least \<open>c * r\<close> frames (at most
  \<open>2\<^sup>5\<^sup>0\<close>), the selection succeeds, the selected indices are non-decreasing, the first is
  \<open>0\<close> and the last is \<open>n - 1\<close>: the first and the last frame of the directory are on the sheet.
\<close>

theorem first_and_last_frame:
  assumes "1 < c * r" "c * r \<le> int (length frames)" "length frames \<le> 2 ^ 50"
  shows "\<exists>selected indices.
           select_frames frames (c * r) = Inr (selected, indices)
           \<and> sorted indices \<and> hd indices = 0 \<and> last indices = int (length frames) - 1
           \<and> hd selected = hd frames \<and> last selected = last frames"
proof -
  from sampled_indices_props[OF assms] obtain indices where
    sel: "select_indices (length frames) (c * r) = Inr indices" and srt: "sorted indices"
    and h: "hd indices = 0" and l: "last indices = int (length frames) - 1" and ne: "indices \<noteq> []"
    by blast
  have fne: "frames \<noteq> []" using assms(1,2) by auto
  have rng: "0 \<le> i \<and> i < int (length frames)" if "i \<in> set indices" for i
  proof -
    from that obtain k where k: "k < length indices" "indices ! k = i" by (auto simp: in_set_conv_nth)
    have "indices ! 0 \<le> indices ! k" using srt k(1) by (simp add: sorted_nth_mono)
    moreover have "indices ! k \<le> indices ! (length indices - 1)"
      using srt k(1) by (intro sorted_nth_mono) simp_all
    ultimately show ?thesis using h l ne k(2) by (simp add: hd_conv_nth last_conv_nth)
  qed
  have m: "map_exn (py_index frames) indices = Inr (map (\<lambda>i. frames ! nat i) indices)"
    by (rule map_exn_Inr) (simp add: py_index_in_range rng)
  have sf: "select_frames frames (c * r) = Inr (map (\<lambda>i. frames ! nat i) indices, indices)"
    by (simp add: select_frames_def sel m)
  have "hd (map (\<lambda>i. frames ! nat i) indices) = frames ! 0" using ne h by (simp add: hd_map)
  then have hs: "hd (map (\<lambda>i. frames ! nat i) indices) = hd frames"
    using fne by (simp add: hd_conv_nth)
  have "last (map (\<lambda>i. frames ! nat i) indices) = frames ! nat (int (length frames) - 1)"
    using ne l by (simp add: last_map)
  also have "nat (int (length frames) - 1) = length frames - 1" by simp
  finally have ls: "last (map (\<lambda>i. frames ! nat i) indices) = last frames"
    using fne by (simp add: last_conv_nth)
  show ?thesis using sf srt h l hs ls by blast
qed

theorem first_and_last_frame_witness:
  "(1::int) < 2 * 2
   \<and> (\<exists>selected indices.
         select_frames [''frame_0000.png'', ''frame_0001.png'', ''frame_0002.png'', ''frame_0003.png'', ''frame_0004.png'', ''frame_0005.png'', ''frame_0006.png'', ''frame_0007.png'', ''frame_0008.png'', ''frame_0009.png''] (2 * 2) = Inr (selected, indices)
         \<and> sorted indices \<and> hd indices = 0 \<and> last indices = 9
         \<and> hd selected = ''frame_0000.png'' \<and> last selected = ''frame_0009.png'')"
  using first_and_last_frame[of 2 2 "[''frame_0000.png'', ''frame_0001.png'', ''frame_0002.png'', ''frame_0003.png'', ''frame_0004.png'', ''frame_0005.png'', ''frame_0006.png'', ''frame_0007.png'', ''frame_0008.png'', ''frame_0009.png'']"]
  by simp

text \<open>
  Claim C3. With fewer frames than the grid has cells, the selection is the whole frame list in
  its sorted order, with the indices \<open>0, \<dots>, n - 1\<close>; no sampling takes place. Two frames on
  a 4 by 4 grid give both frames in order.
\<close>

theorem all_frames_when_few:
  assumes "int (length frames) < c * r"
  shows "select_frames frames (c * r) = Inr (frames, map int [0..<length frames])"
  using assms by (rule select_frames_all)

theorem all_frames_when_few_witness:
  "int (length [''frame_0000.png'', ''frame_0001.png'']) < 4 * 4
   \<and> select_frames [''frame_0000.png'', ''frame_0001.png''] (4 * 4)
       = Inr ([''frame_0000.png'', ''frame_0001.png''], [0, 1])"
  using all_frames_when_few[of "[''frame_0000.png'', ''frame_0001.png'']" 4 4]
  by (simp add: upt_rec)


section \<open>Integer literals\<close>

lemma split_on_not_Nil: "split_on c s \<noteq> []"
  by (induction s) (auto split: list.splits)

lemma split_on_single: "split_on c s = [a] \<longleftrightarrow> s = a \<and> c \<notin> set a"
proof (induction s arbitrary: a)
  case Nil
  then show ?case by auto
next
  case (Cons x xs)
  show ?case
  proof (cases "x = c")
    case True
    then show ?thesis using split_on_not_Nil[of c xs] by auto
  next
    case False
    obtain p ps where sp: "split_on c xs = p # ps"
      using split_on_not_Nil[of c xs] by (cases "split_on c xs") auto
    show ?thesis using False sp Cons.IH[of p] Cons.IH[of xs] by auto
  qed
qed

lemma split_on_two:
  "split_on c s = [a, b] \<longleftrightarrow> s = a @ c # b \<and> c \<notin> set a \<and> c \<notin> set b"
proof (induction s arbitrary: a)
  case Nil
  then show ?case by auto
next
  case (Cons x xs)
  show ?case
  proof (cases "x = c")
    case True
    then show ?thesis using split_on_single[of c xs b] by (cases a) auto
  next
    case False
    obtain p ps where sp: "split_on c xs = p # ps"
      using split_on_not_Nil[of c xs] by (cases "split_on c xs") auto
    show ?thesis
    proof (cases a)
      case Nil
      then show ?thesis using False sp by auto
    next
      case (Cons y ys)
      then show ?thesis using False sp Cons.IH[of ys] Cons.IH[of p] by auto
    qed
  qed
qed

lemma split_on_append: "c \<notin> set g \<Longrightarrow> split_on c (g @ c # xs) = g # split_on c xs"
  by (induction g) auto

lemma split_on_elems: "g \<in> set (split_on c xs) \<Longrightarrow> x \<in> set g \<Longrightarrow> x \<in> set xs \<and> x \<noteq> c"
proof (induction xs arbitrary: g)
  case Nil
  then show ?case by simp
next
  case (Cons y ys)
  obtain p ps where sp: "split_on c ys = p # ps"
    using split_on_not_Nil[of c ys] by (cases "split_on c ys") auto
  show ?case
  proof (cases "y = c")
    case True
    with Cons.prems have "g \<in> set (split_on c ys)" by auto
    then show ?thesis using Cons.IH Cons.prems(2) by auto
  next
    case False
    with Cons.prems(1) sp have "g = y # p \<or> g \<in> set ps" by auto
    then show ?thesis
    proof
      assume g: "g = y # p"
      show ?thesis
      proof (cases "x = y")
        case True
        then show ?thesis using False by simp
      next
        case neq: False
        with g Cons.prems(2) have "x \<in> set p" by simp
        then show ?thesis using Cons.IH[of p] sp by simp
      qed
    next
      assume "g \<in> set ps"
      then show ?thesis using Cons.IH[of g] sp Cons.prems(2) by simp
    qed
  qed
qed

lemma join_underscore_Cons: "join_underscore ((x # p) # ps) = x # join_underscore (p # ps)"
  by (cases ps) auto

lemma join_split: "join_underscore (split_on 95 xs) = xs"
proof (induction xs)
  case Nil
  then show ?case by simp
next
  case (Cons y ys)
  obtain p ps where sp: "split_on 95 ys = p # ps"
    using split_on_not_Nil[of 95 ys] by (cases "split_on 95 ys") auto
  show ?case using Cons.IH sp by (auto simp: join_underscore_Cons)
qed

lemma split_join:
  "groups \<noteq> [] \<Longrightarrow> \<forall>g\<in>set groups. 95 \<notin> set g \<Longrightarrow> split_on 95 (join_underscore groups) = groups"
proof (induction groups rule: join_underscore.induct)
  case 1
  then show ?case by simp
next
  case (2 g)
  then show ?case by (simp add: split_on_single)
next
  case (3 g h gs)
  then show ?case by (simp add: split_on_append)
qed

lemma set_join_underscore:
  "x \<in> set (join_underscore groups) \<Longrightarrow> x = 95 \<or> (\<exists>g\<in>set groups. x \<in> set g)"
  by (induction groups rule: join_underscore.induct) auto

lemma hd_join_underscore:
  "groups \<noteq> [] \<Longrightarrow> \<forall>g\<in>set groups. g \<noteq> [] \<Longrightarrow>
     \<exists>d ds. join_underscore groups = d # ds \<and> d \<in> set (hd groups)"
proof (induction groups rule: join_underscore.induct)
  case 1
  then show ?case by simp
next
  case (2 g)
  then show ?case by (cases g) auto
next
  case (3 g h gs)
  then show ?case by (cases g) auto
qed

lemma decimal_digit_in: "decimal_digit c \<Longrightarrow> digit_in 10 c = Some (c - 48)"
  by (auto simp: decimal_digit_def digit_in_def)

lemma digit_in_ten: "digit_in 10 c \<noteq> None \<longleftrightarrow> decimal_digit c"
  by (auto simp: decimal_digit_def digit_in_def Let_def split: if_splits)

lemma in_run_ten: "in_run 10 c \<longleftrightarrow> decimal_digit c \<or> c = 95"
  using digit_in_ten[of c] by (auto simp: in_run_def)

lemma decimal_not_space: "decimal_digit c \<Longrightarrow> \<not> is_space c \<and> c \<noteq> 43 \<and> c \<noteq> 45 \<and> c \<noteq> 95"
  by (auto simp: decimal_digit_def is_space_def)

lemma space_not_in_run: "is_space c \<Longrightarrow> \<not> in_run 10 c"
  by (auto simp: in_run_ten decimal_digit_def is_space_def)

lemma digits_value_decimal_aux:
  "list_all decimal_digit ds \<Longrightarrow>
     foldl (\<lambda>n c. n * 10 + (case digit_in 10 c of None \<Rightarrow> 0 | Some k \<Rightarrow> k)) m ds
       = foldl (\<lambda>n c. 10 * n + (c - 48)) m ds"
  by (induction ds arbitrary: m) (auto simp: decimal_digit_in mult.commute)

lemma digits_value_decimal: "list_all decimal_digit ds \<Longrightarrow> digits_value 10 ds = decimal_value ds"
  by (simp add: digits_value_def decimal_value_def digits_value_decimal_aux)

lemma dropWhile_all: "list_all P xs \<Longrightarrow> dropWhile P (xs @ ys) = dropWhile P ys"
  by (induction xs) auto

lemma takeWhile_all: "list_all P xs \<Longrightarrow> takeWhile P (xs @ ys) = xs @ takeWhile P ys"
  by (induction xs) auto

lemma dropWhile_none: "list_all (\<lambda>x. \<not> P x) xs \<Longrightarrow> dropWhile P xs = xs"
  by (cases xs) auto

lemma takeWhile_none: "list_all (\<lambda>x. \<not> P x) xs \<Longrightarrow> takeWhile P xs = []"
  by (cases xs) auto

text \<open>
  \<^verbatim>\<open>int(s)\<close> returns exactly on the texts of integers, with the integer the text denotes.
\<close>

lemma py_int_of_text:
  assumes "integer_text rt s v"
  shows "py_int rt 10 s = Inr v"
proof -
  from assms obtain lead sgn groups trail where
    form: "ascii_form rt s = lead @ sgn @ join_underscore groups @ trail"
    and lead: "list_all is_space lead" and trail: "list_all is_space trail"
    and sgn: "sgn = [] \<or> sgn = [43] \<or> sgn = [45]"
    and ne: "groups \<noteq> []"
    and digits: "list_all (\<lambda>g. g \<noteq> [] \<and> list_all decimal_digit g) groups"
    and limit: "\<not> (640 < length (concat groups) \<and> 0 < max_str_digits rt
                    \<and> max_str_digits rt < length (concat groups))"
    and v: "v = (if sgn = [45] then - int (decimal_value (concat groups))
                 else int (decimal_value (concat groups)))"
    unfolding integer_text_def by blast
  let ?J = "join_underscore groups"
  have g_ne: "\<forall>g\<in>set groups. g \<noteq> []" and g_dig: "\<forall>g\<in>set groups. \<forall>x\<in>set g. decimal_digit x"
    using digits by (auto simp: list_all_iff)
  obtain d ds where J: "?J = d # ds" and d: "decimal_digit d"
    using hd_join_underscore[OF ne g_ne] g_dig ne by (metis hd_in_set)
  have run: "list_all (in_run 10) ?J"
    using set_join_underscore[of _ groups] g_dig by (auto simp: list_all_iff in_run_ten)
  have no95: "\<forall>g\<in>set groups. 95 \<notin> set g"
    using g_dig decimal_not_space by blast
  have all_digits: "list_all decimal_digit (concat groups)"
    using g_dig by (auto simp: list_all_iff)
  have t: "dropWhile is_space (ascii_form rt s) = sgn @ ?J @ trail"
  proof -
    have "dropWhile is_space (sgn @ ?J @ trail) = sgn @ ?J @ trail"
      using sgn J d decimal_not_space[OF d] by (auto simp: is_space_def)
    then show ?thesis using dropWhile_all[OF lead] form by simp
  qed
  have split: "(case sgn @ ?J @ trail of
                  [] \<Rightarrow> (False, sgn @ ?J @ trail)
                | c # cs \<Rightarrow> if c = 45 then (True, cs)
                            else if c = 43 then (False, cs) else (False, sgn @ ?J @ trail))
               = (sgn = [45], ?J @ trail)"
    using sgn J decimal_not_space[OF d] by auto
  have tw: "takeWhile (in_run 10) (?J @ trail) = ?J"
    using takeWhile_all[OF run, of trail] takeWhile_none[of "in_run 10" trail] trail
      space_not_in_run by (auto simp: list_all_iff)
  have dw: "dropWhile (in_run 10) (?J @ trail) = trail"
    using dropWhile_all[OF run, of trail] dropWhile_none[of "in_run 10" trail] trail
      space_not_in_run by (auto simp: list_all_iff)
  have sp: "split_on 95 ?J = groups" by (rule split_join[OF ne no95])
  have rest: "dropWhile is_space trail = []" using trail by (simp add: list_all_iff)
  have lim: "\<not> over_digit_limit rt 10 (length (concat groups))"
    using limit by (simp add: over_digit_limit_def)
  have "[] \<notin> set groups" using g_ne by blast
  then show ?thesis
    unfolding py_int_def t split Let_def prod.case skip_prefix_def
    using lim rest v by (simp add: tw dw sp digits_value_decimal[OF all_digits])
qed

lemma text_of_py_int:
  assumes "py_int rt 10 s = Inr v"
  shows "integer_text rt s v"
proof -
  define t where "t = dropWhile is_space (ascii_form rt s)"
  define lead where "lead = takeWhile is_space (ascii_form rt s)"
  define sgn where "sgn = (case t of [] \<Rightarrow> [] | c # cs \<Rightarrow> if c = 45 \<or> c = 43 then [c] else [])"
  define u where "u = drop (length sgn) t"
  define groups where "groups = split_on 95 (takeWhile (in_run 10) u)"
  define trail where "trail = dropWhile (in_run 10) u"
  have split: "(case t of
                  [] \<Rightarrow> (False, t)
                | c # cs \<Rightarrow> if c = 45 then (True, cs)
                            else if c = 43 then (False, cs) else (False, t))
               = (sgn = [45], u)"
    by (cases t) (auto simp: sgn_def u_def)
  have pi: "py_int rt 10 s =
        (if [] \<in> set groups then Inl (InvalidLiteral 10 s)
         else if over_digit_limit rt 10 (length (concat groups))
           then Inl (DigitLimit (length (concat groups)))
         else if dropWhile is_space trail \<noteq> [] then Inl (InvalidLiteral 10 s)
         else Inr (if sgn = [45] then - int (digits_value 10 (concat groups))
                   else int (digits_value 10 (concat groups))))"
    unfolding py_int_def t_def[symmetric] split Let_def prod.case
    by (simp add: skip_prefix_def groups_def trail_def)
  from assms pi have g_ne: "[] \<notin> set groups"
    and lim: "\<not> over_digit_limit rt 10 (length (concat groups))"
    and rest: "dropWhile is_space trail = []"
    and v: "v = (if sgn = [45] then - int (digits_value 10 (concat groups))
                 else int (digits_value 10 (concat groups)))"
    by (auto split: if_splits)
  have "t = sgn @ u" by (simp add: u_def sgn_def split: list.splits)
  moreover have "ascii_form rt s = lead @ t" by (simp add: lead_def t_def)
  moreover have "u = join_underscore groups @ trail"
    by (simp add: groups_def trail_def join_split)
  ultimately have form: "ascii_form rt s = lead @ sgn @ join_underscore groups @ trail" by simp
  have lead: "list_all is_space lead"
    by (auto simp: lead_def list_all_iff dest: set_takeWhileD)
  have trail: "list_all is_space trail" using rest by (simp add: list_all_iff)
  have sgn: "sgn = [] \<or> sgn = [43] \<or> sgn = [45]" by (auto simp: sgn_def split: list.splits)
  have ne: "groups \<noteq> []" by (simp add: groups_def split_on_not_Nil)
  have dig: "decimal_digit x" if "g \<in> set groups" "x \<in> set g" for g x
  proof -
    from that have "x \<in> set (takeWhile (in_run 10) u) \<and> x \<noteq> 95"
      unfolding groups_def by (rule split_on_elems)
    then show ?thesis using set_takeWhileD[of x "in_run 10" u] by (auto simp: in_run_ten)
  qed
  have digits: "list_all (\<lambda>g. g \<noteq> [] \<and> list_all decimal_digit g) groups"
    using g_ne dig by (auto simp: list_all_iff)
  have all_digits: "list_all decimal_digit (concat groups)"
    using dig by (auto simp: list_all_iff)
  have limit: "\<not> (640 < length (concat groups) \<and> 0 < max_str_digits rt
                    \<and> max_str_digits rt < length (concat groups))"
    using lim by (simp add: over_digit_limit_def)
  have "v = (if sgn = [45] then - int (decimal_value (concat groups))
             else int (decimal_value (concat groups)))"
    using v by (simp add: digits_value_decimal[OF all_digits])
  with form lead trail sgn ne digits limit show ?thesis
    unfolding integer_text_def by blast
qed

lemma py_int_iff_text: "py_int rt 10 s = Inr v \<longleftrightarrow> integer_text rt s v"
  using py_int_of_text text_of_py_int by blast

lemma to_ascii_digits_keeps:
  "c < 127 \<Longrightarrow> c \<noteq> 63 \<Longrightarrow> c \<in> set s \<Longrightarrow>
     c \<in> set (to_ascii_digits rt s) \<or> 63 \<in> set (to_ascii_digits rt s)"
  by (induction s) (auto split: option.splits)

lemma ascii_form_keeps:
  "c < 127 \<Longrightarrow> c \<noteq> 63 \<Longrightarrow> c \<in> set s \<Longrightarrow>
     c \<in> set (ascii_form rt s) \<or> 63 \<in> set (ascii_form rt s)"
  using to_ascii_digits_keeps[of c s rt] by (simp add: ascii_form_def)

lemma integer_text_chars:
  assumes "integer_text rt s v" and "c \<in> set (ascii_form rt s)"
  shows "is_space c \<or> c = 43 \<or> c = 45 \<or> c = 95 \<or> decimal_digit c"
proof -
  from assms(1) obtain lead sgn groups trail where
    form: "ascii_form rt s = lead @ sgn @ join_underscore groups @ trail"
    and lead: "list_all is_space lead" and trail: "list_all is_space trail"
    and sgn: "sgn = [] \<or> sgn = [43] \<or> sgn = [45]"
    and digits: "list_all (\<lambda>g. g \<noteq> [] \<and> list_all decimal_digit g) groups"
    unfolding integer_text_def by blast
  from assms(2) form have "c \<in> set lead \<or> c \<in> set sgn \<or> c \<in> set (join_underscore groups)
      \<or> c \<in> set trail" by auto
  then show ?thesis
    using lead trail sgn digits set_join_underscore[of c groups]
    by (auto simp: list_all_iff)
qed

lemma integer_text_no_x:
  assumes "integer_text rt s v"
  shows "120 \<notin> set s"
proof
  assume "120 \<in> set s"
  then have "120 \<in> set (ascii_form rt s) \<or> 63 \<in> set (ascii_form rt s)"
    using ascii_form_keeps[of 120 s rt] by simp
  then show False
    using integer_text_chars[OF assms, of 120] integer_text_chars[OF assms, of 63]
    by (auto simp: is_space_def decimal_digit_def)
qed

section \<open>Grid shape\<close>

lemma parse_grid_Inr_split:
  "parse_grid rt g = Inr (cols, rows) \<longleftrightarrow>
     (\<exists>cs rs. str_lower rt g = cs @ [120] @ rs \<and> 120 \<notin> set cs \<and> 120 \<notin> set rs
        \<and> py_int rt 10 cs = Inr cols \<and> py_int rt 10 rs = Inr rows \<and> 0 < cols \<and> 0 < rows)"
proof
  assume ok: "parse_grid rt g = Inr (cols, rows)"
  then obtain cs rs where sp: "split_on 120 (str_lower rt g) = [cs, rs]"
    by (auto simp: parse_grid_def split: list.splits sum.splits)
  from ok sp have "py_int rt 10 cs = Inr cols \<and> py_int rt 10 rs = Inr rows \<and> 0 < cols \<and> 0 < rows"
    by (auto simp: parse_grid_def bind_exn_def split: sum.splits if_splits)
  moreover from sp have "str_lower rt g = cs @ [120] @ rs \<and> 120 \<notin> set cs \<and> 120 \<notin> set rs"
    by (simp add: split_on_two)
  ultimately show "\<exists>cs rs. str_lower rt g = cs @ [120] @ rs \<and> 120 \<notin> set cs \<and> 120 \<notin> set rs
        \<and> py_int rt 10 cs = Inr cols \<and> py_int rt 10 rs = Inr rows \<and> 0 < cols \<and> 0 < rows" by blast
next
  assume "\<exists>cs rs. str_lower rt g = cs @ [120] @ rs \<and> 120 \<notin> set cs \<and> 120 \<notin> set rs
        \<and> py_int rt 10 cs = Inr cols \<and> py_int rt 10 rs = Inr rows \<and> 0 < cols \<and> 0 < rows"
  then obtain cs rs where h: "str_lower rt g = cs @ [120] @ rs" "120 \<notin> set cs" "120 \<notin> set rs"
    "py_int rt 10 cs = Inr cols" "py_int rt 10 rs = Inr rows" "0 < cols" "0 < rows" by blast
  from h(1-3) have "split_on 120 (str_lower rt g) = [cs, rs]" by (simp add: split_on_two)
  with h(4-7) show "parse_grid rt g = Inr (cols, rows)" by (simp add: parse_grid_def)
qed

text \<open>\<^verbatim>\<open>parse_grid\<close> returns exactly on the grid shapes, with the two integers of the text.\<close>

lemma parse_grid_Inr_iff:
  "parse_grid rt g = Inr (cols, rows) \<longleftrightarrow>
     (\<exists>cs rs. str_lower rt g = cs @ [120] @ rs
        \<and> integer_text rt cs cols \<and> integer_text rt rs rows \<and> 0 < cols \<and> 0 < rows)"
  unfolding parse_grid_Inr_split py_int_iff_text using integer_text_no_x by blast

lemma grid_text_iff: "grid_text rt g \<longleftrightarrow> (\<exists>cols rows. parse_grid rt g = Inr (cols, rows))"
  unfolding grid_text_def parse_grid_Inr_iff by blast

lemma parse_grid_Inl:
  "parse_grid rt g = Inl e \<Longrightarrow>
     e = ValueError ''Grid must be in COLSxROWS format, e.g., 4x4.''
     \<or> e = ValueError ''Grid dimensions must be positive.''"
  by (auto simp: parse_grid_def split: sum.splits if_splits prod.splits)

lemma parse_grid_positive: "parse_grid rt g = Inr (cols, rows) \<Longrightarrow> 0 < cols \<and> 0 < rows"
  using parse_grid_Inr_split[of rt g cols rows] by blast

lemma main_bad_grid: "parse_grid (python w) (grid a) = Inl e \<Longrightarrow> main a w = (Inl e, [])"
  by (simp add: main_def)

text \<open>
  Claim C7. A grid string that is not the texts of two positive integers on the two sides of
  one \<open>x\<close> (in either case) ends the run with a \<^verbatim>\<open>ValueError\<close> and one of the two messages
  of \<^verbatim>\<open>parse_grid\<close> before any input or output action: the directory is not tested, no frame
  is looked for and no image is opened. The text of an integer is what Python's \<^verbatim>\<open>int\<close>
  reads: decimal digits of any script, in groups separated by single underscores, after an
  optional sign and between white space, within the limit on the number of digits. The
  strings \<open>4\<close>, \<open>4x\<close> and \<open>0x4\<close> are rejected in this way.
\<close>

theorem malformed_grid_rejected_first:
  assumes "\<not> grid_text (python w) (grid a)"
  shows "main a w = (Inl (ValueError ''Grid must be in COLSxROWS format, e.g., 4x4.''), [])
       \<or> main a w = (Inl (ValueError ''Grid dimensions must be positive.''), [])"
proof (cases "parse_grid (python w) (grid a)")
  case (Inl e)
  then show ?thesis using parse_grid_Inl[OF Inl] main_bad_grid[OF Inl] by auto
next
  case (Inr cr)
  obtain cols rows where "cr = (cols, rows)" by (cases cr)
  with Inr assms show ?thesis by (simp add: grid_text_iff)
qed

lemma sample_python_simps:
  "python sample_world = sample_python"
  "max_str_digits sample_python = 4300"
  "str_lower sample_python s = map (\<lambda>c. if 65 \<le> c \<and> c \<le> 90 then c + 32 else c) s"
  by (simp_all add: sample_world_def sample_python_def)

lemma parse_grid_examples:
  "parse_grid sample_python (ascii ''4'')
     = Inl (ValueError ''Grid must be in COLSxROWS format, e.g., 4x4.'')"
  "parse_grid sample_python (ascii ''4x'')
     = Inl (ValueError ''Grid must be in COLSxROWS format, e.g., 4x4.'')"
  "parse_grid sample_python (ascii ''0x4'') = Inl (ValueError ''Grid dimensions must be positive.'')"
  by (simp_all add: parse_grid_def sample_python_simps ascii_def py_int_def ascii_form_def
      is_space_def skip_prefix_def in_run_def digit_in_def over_digit_limit_def digits_value_def
      bind_exn_def Let_def)

text \<open>Digits of another script are read as \<^verbatim>\<open>int\<close> reads them: the grid of four by four in
  Arabic-Indic digits is accepted.\<close>

lemma arabic_digits_grid: "parse_grid sample_python [1636, 120, 1636] = Inr (4, 4)"
  by (simp add: parse_grid_def sample_python_def digit_blocks_def py_int_def ascii_form_def
      is_space_def skip_prefix_def in_run_def digit_in_def over_digit_limit_def digits_value_def
      bind_exn_def Let_def)

lemma not_well_formed: "parse_grid rt g = Inl e \<Longrightarrow> \<not> grid_text rt g"
  by (simp add: grid_text_iff)

theorem malformed_grid_rejected_first_witness:
  "main \<lparr> image_dir = ''media'', scene_name = None, output_arg = None, grid = ascii ''4'',
          max_width = 320, fps = None, grid_color = ascii ''808080'', label_size = 12 \<rparr>
        sample_world
     = (Inl (ValueError ''Grid must be in COLSxROWS format, e.g., 4x4.''), [])
   \<and> main \<lparr> image_dir = ''media'', scene_name = None, output_arg = None, grid = ascii ''4x'',
            max_width = 320, fps = None, grid_color = ascii ''808080'', label_size = 12 \<rparr>
          sample_world
     = (Inl (ValueError ''Grid must be in COLSxROWS format, e.g., 4x4.''), [])
   \<and> main \<lparr> image_dir = ''media'', scene_name = None, output_arg = None, grid = ascii ''0x4'',
            max_width = 320, fps = None, grid_color = ascii ''808080'', label_size = 12 \<rparr>
          sample_world
     = (Inl (ValueError ''Grid dimensions must be positive.''), [])"
  using
    malformed_grid_rejected_first[of sample_world "\<lparr> image_dir = ''media'', scene_name = None,
      output_arg = None, grid = ascii ''4'', max_width = 320, fps = None,
      grid_color = ascii ''808080'', label_size = 12 \<rparr>"]
    malformed_grid_rejected_first[of sample_world "\<lparr> image_dir = ''media'', scene_name = None,
      output_arg = None, grid = ascii ''4x'', max_width = 320, fps = None,
      grid_color = ascii ''808080'', label_size = 12 \<rparr>"]
    malformed_grid_rejected_first[of sample_world "\<lparr> image_dir = ''media'', scene_name = None,
      output_arg = None, grid = ascii ''0x4'', max_width = 320, fps = None,
      grid_color = ascii ''808080'', label_size = 12 \<rparr>"]
    not_well_formed[OF parse_grid_examples(1)] not_well_formed[OF parse_grid_examples(2)]
    not_well_formed[OF parse_grid_examples(3)]
  by (simp add: main_def parse_grid_examples sample_python_simps(1))


section \<open>Structure of a run\<close>

lemma open_images_no_write: "filter is_write (snd (open_images w ps)) = []"
  by (induction ps) (auto split: option.splits prod.splits sum.splits)

lemma open_images_Inr:
  "open_images w ps = (Inr sizes, tr) \<Longrightarrow> map (image_size w) ps = map Some sizes \<and> tr = map OpenImage ps"
proof (induction ps arbitrary: sizes tr)
  case Nil
  then show ?case by simp
next
  case (Cons p ps)
  then show ?case by (auto split: option.splits prod.splits sum.splits)
qed

text \<open>
  A failing run on the Pillow path has written nothing, unless it is \<^verbatim>\<open>sheet.save\<close> that
  failed after opening the output file.
\<close>

lemma render_Inl:
  assumes "fst (render a w cols rows selected indices) = Inl e"
  shows "filter is_write (snd (render a w cols rows selected indices)) = []
       \<or> (e = SaveError
          \<and> save_outcome w (path_join (image_dir a) (output_filename a)) = SaveBreaksOff
          \<and> snd (render a w cols rows selected indices)
              = map OpenImage (map (path_join (image_dir a)) selected)
                @ [Truncate (path_join (image_dir a) (output_filename a))])"
proof -
  obtain res otr where o: "open_images w (map (path_join (image_dir a)) selected) = (res, otr)"
    by (cases "open_images w (map (path_join (image_dir a)) selected)")
  have nw: "filter is_write otr = []"
    using open_images_no_write[of w "map (path_join (image_dir a)) selected"] o by simp
  show ?thesis
  proof (cases res)
    case (Inl e')
    with o nw show ?thesis by (simp add: render_def)
  next
    case (Inr sizes)
    note r = this
    have tr: "otr = map OpenImage (map (path_join (image_dir a)) selected)"
      using open_images_Inr[OF o[unfolded r]] by simp
    show ?thesis
    proof (cases "compose a w cols rows (zip indices selected) sizes")
      case (Inl e')
      with o r nw show ?thesis by (simp add: render_def)
    next
      case (Inr sh)
      with o r nw tr assms show ?thesis
        by (cases "save_outcome w (path_join (image_dir a) (output_filename a))")
          (simp_all add: render_def Let_def)
    qed
  qed
qed

lemma render_Inl_no_save:
  assumes "fst (render a w cols rows selected indices) = Inl e"
  shows "Save p sh \<notin> set (snd (render a w cols rows selected indices))"
proof
  assume s: "Save p sh \<in> set (snd (render a w cols rows selected indices))"
  from render_Inl[OF assms] show False
  proof
    assume "filter is_write (snd (render a w cols rows selected indices)) = []"
    then have "\<not> is_write (Save p sh)" using s by (auto simp: filter_empty_conv)
    then show False by simp
  next
    assume "e = SaveError
          \<and> save_outcome w (path_join (image_dir a) (output_filename a)) = SaveBreaksOff
          \<and> snd (render a w cols rows selected indices)
              = map OpenImage (map (path_join (image_dir a)) selected)
                @ [Truncate (path_join (image_dir a) (output_filename a))]"
    with s show False by auto
  qed
qed

lemma render_Inr:
  assumes "render a w cols rows selected indices = (Inr rc, tr)"
  shows "\<exists>sizes sh.
           map (image_size w) (map (path_join (image_dir a)) selected) = map Some sizes
         \<and> compose a w cols rows (zip indices selected) sizes = Inr sh
         \<and> tr = map OpenImage (map (path_join (image_dir a)) selected)
                @ [Save (path_join (image_dir a) (output_filename a)) sh]
         \<and> rc = 0"
proof -
  obtain res otr where o: "open_images w (map (path_join (image_dir a)) selected) = (res, otr)"
    by (cases "open_images w (map (path_join (image_dir a)) selected)")
  from assms o obtain sizes where r: "res = Inr sizes"
    by (cases res) (auto simp: render_def)
  from assms o r obtain sh where c: "compose a w cols rows (zip indices selected) sizes = Inr sh"
    by (cases "compose a w cols rows (zip indices selected) sizes") (auto simp: render_def)
  from assms o r c have "tr = otr @ [Save (path_join (image_dir a) (output_filename a)) sh]" "rc = 0"
    by (auto simp: render_def Let_def split: save_result.splits)
  with open_images_Inr[OF o[unfolded r]] c show ?thesis by blast
qed

lemma fallback_Inl:
  "fst (fallback a w cols rows selected) = Inl e \<Longrightarrow> Save p sh \<notin> set (snd (fallback a w cols rows selected))"
  by (auto simp: fallback_def Let_def split: option.splits if_splits)


lemma fallback_Inr:
  "fallback a w cols rows selected = (Inr rc, tr) \<Longrightarrow>
     rc = 0 \<and> (\<exists>cmd. command_succeeds w cmd
                  \<and> last cmd = path_join (image_dir a) (output_filename a)
                  \<and> tr = [Which ''magick'', Which ''montage''] @ [Run cmd])"
  by (auto simp: fallback_def Let_def split: option.splits if_splits)

lemma main_no_dir:
  "parse_grid (python w) (grid a) = Inr (cols, rows) \<Longrightarrow> \<not> dir_exists w \<Longrightarrow>
     main a w = (Inl (SystemExit (''Image directory not found: '' @ path_str (image_dir a))), [IsDir (path_str (image_dir a))])"
  by (simp add: main_def)

lemma main_no_frames:
  "parse_grid (python w) (grid a) = Inr (cols, rows) \<Longrightarrow> dir_exists w \<Longrightarrow> discover w = [] \<Longrightarrow>
     main a w = (Inl (SystemExit (''No PNG frames found in '' @ path_str (image_dir a))),
                 [IsDir (path_str (image_dir a)), ImportPIL, Glob (path_str (image_dir a))])"
  by (simp add: main_def)

lemma main_select_failed:
  "parse_grid (python w) (grid a) = Inr (cols, rows) \<Longrightarrow> dir_exists w \<Longrightarrow> discover w \<noteq> [] \<Longrightarrow>
   select_frames (discover w) (cols * rows) = Inl e \<Longrightarrow>
     main a w = (Inl e, [IsDir (path_str (image_dir a)), ImportPIL, Glob (path_str (image_dir a))])"
  by (simp add: main_def)

lemma main_run:
  "parse_grid (python w) (grid a) = Inr (cols, rows) \<Longrightarrow> dir_exists w \<Longrightarrow> discover w \<noteq> [] \<Longrightarrow>
   select_frames (discover w) (cols * rows) = Inr (selected, indices) \<Longrightarrow>
     main a w =
       (fst (if pil_available w then render a w cols rows selected indices
             else fallback a w cols rows selected),
        [IsDir (path_str (image_dir a)), ImportPIL, Glob (path_str (image_dir a))]
        @ snd (if pil_available w then render a w cols rows selected indices
               else fallback a w cols rows selected))"
  by (simp add: main_def split: prod.splits)

text \<open>The six ways a run can go.\<close>

lemma main_cases:
  obtains
    (bad_grid) e where "parse_grid (python w) (grid a) = Inl e" "main a w = (Inl e, [])"
  | (no_dir) cols rows where "parse_grid (python w) (grid a) = Inr (cols, rows)" "\<not> dir_exists w"
      "main a w = (Inl (SystemExit (''Image directory not found: '' @ path_str (image_dir a))), [IsDir (path_str (image_dir a))])"
  | (no_frames) cols rows where "parse_grid (python w) (grid a) = Inr (cols, rows)" "dir_exists w" "discover w = []"
      "main a w = (Inl (SystemExit (''No PNG frames found in '' @ path_str (image_dir a))),
                   [IsDir (path_str (image_dir a)), ImportPIL, Glob (path_str (image_dir a))])"
  | (select_failed) cols rows e where "parse_grid (python w) (grid a) = Inr (cols, rows)" "dir_exists w"
      "discover w \<noteq> []" "select_frames (discover w) (cols * rows) = Inl e"
      "main a w = (Inl e, [IsDir (path_str (image_dir a)), ImportPIL, Glob (path_str (image_dir a))])"
  | (pillow) cols rows selected indices where "parse_grid (python w) (grid a) = Inr (cols, rows)" "dir_exists w"
      "discover w \<noteq> []" "select_frames (discover w) (cols * rows) = Inr (selected, indices)"
      "pil_available w"
      "main a w = (fst (render a w cols rows selected indices),
                   [IsDir (path_str (image_dir a)), ImportPIL, Glob (path_str (image_dir a))]
                   @ snd (render a w cols rows selected indices))"
  | (montage) cols rows selected indices where "parse_grid (python w) (grid a) = Inr (cols, rows)" "dir_exists w"
      "discover w \<noteq> []" "select_frames (discover w) (cols * rows) = Inr (selected, indices)"
      "\<not> pil_available w"
      "main a w = (fst (fallback a w cols rows selected),
                   [IsDir (path_str (image_dir a)), ImportPIL, Glob (path_str (image_dir a))]
                   @ snd (fallback a w cols rows selected))"
proof (cases "parse_grid (python w) (grid a)")
  case (Inl e)
  then show ?thesis using bad_grid main_bad_grid by blast
next
  case (Inr cr)
  obtain cols rows where cr: "cr = (cols, rows)" by (cases cr)
  note pg = Inr[unfolded cr]
  show ?thesis
  proof (cases "dir_exists w")
    case False
    then show ?thesis using no_dir[OF pg] main_no_dir[OF pg] by blast
  next
    case d: True
    show ?thesis
    proof (cases "discover w = []")
      case True
      then show ?thesis using no_frames[OF pg d] main_no_frames[OF pg d] by blast
    next
      case f: False
      show ?thesis
      proof (cases "select_frames (discover w) (cols * rows)")
        case (Inl e)
        then show ?thesis using select_failed[OF pg d f] main_select_failed[OF pg d f] by blast
      next
        case (Inr si)
        obtain selected indices where si: "si = (selected, indices)" by (cases si)
        note sf = Inr[unfolded si]
        show ?thesis
        proof (cases "pil_available w")
          case True
          then show ?thesis using pillow[OF pg d f sf] main_run[OF pg d f sf] by simp
        next
          case False
          then show ?thesis using montage[OF pg d f sf] main_run[OF pg d f sf] by simp
        qed
      qed
    qed
  qed
qed


lemma map_exn_set:
  "map_exn f xs = Inr ys \<Longrightarrow> y \<in> set ys \<Longrightarrow> \<exists>x\<in>set xs. f x = Inr y"
proof (induction xs arbitrary: ys)
  case Nil
  then show ?case by simp
next
  case (Cons x xs)
  then show ?case by (auto split: sum.splits)
qed

lemma to_double_Inr: "to_double s m = Inr x \<Longrightarrow> negative x = s \<and> magnitude x = fl m"
  by (auto simp: to_double_def Let_def split: if_splits)

lemma select_indices_nonneg:
  assumes "select_indices n tot = Inr indices" "i \<in> set indices"
  shows "0 \<le> i"
proof (cases "int n < tot")
  case True
  with assms show ?thesis by (auto simp: select_indices_def)
next
  case False
  with assms(1) obtain step where st: "sampling_step n tot = Inr step"
    and m: "map_exn (\<lambda>k. bind_exn (int_mul k step) (\<lambda>p. Inr (py_round p))) [0..tot - 1] = Inr indices"
    by (auto simp: select_indices_def bind_exn_eq_Inr)
  from map_exn_set[OF m assms(2)] obtain k p where k: "0 \<le> k" "k \<le> tot - 1"
    and p: "int_mul k step = Inr p" "i = py_round p"
    by (auto simp: bind_exn_eq_Inr)
  show ?thesis
  proof (cases "1 < tot")
    case False
    with st have "step = PInt 1" by (simp add: sampling_step_def)
    with p k show ?thesis by (auto simp: int_mul_def py_round_def)
  next
    case True
    with st obtain s where s: "truediv (int n - 1) (tot - 1) = Inr s" "step = PFloat s"
      by (auto simp: sampling_step_def bind_exn_eq_Inr)
    have n1: "\<not> int n - 1 < 0" "\<not> tot - 1 < 0" using True \<open>\<not> int n < tot\<close> by simp_all
    from s(1) n1 have sneg: "\<not> negative s" and smag: "0 \<le> magnitude s"
      using to_double_Inr[of "(int n - 1 < 0) \<noteq> (tot - 1 < 0)" _ s]
      by (auto simp: truediv_def fl_nonneg split: if_splits)
    from p(1) s(2) obtain fk x where fk: "float_of_int k = Inr fk" and x: "fmul fk s = Inr x" "p = PFloat x"
      by (auto simp: int_mul_def int_mul_float_def bind_exn_eq_Inr)
    from fk k(1) have fkn: "\<not> negative fk" "0 \<le> magnitude fk"
      using to_double_Inr[of "k < 0" _ fk] by (auto simp: float_of_int_def fl_nonneg)
    from x(1) have "negative x = (negative fk \<noteq> negative s)" "magnitude x = fl (magnitude fk * magnitude s)"
      using to_double_Inr[of _ _ x] by (auto simp: fmul_def)
    with sneg smag fkn have "\<not> negative x" "0 \<le> magnitude x" by (simp_all add: fl_nonneg)
    with p(2) x(2) show ?thesis by (simp add: py_round_def float_round_def rhe_nonneg)
  qed
qed

lemma select_indices_length:
  assumes "select_indices n tot = Inr indices" "0 < tot"
  shows "int (length indices) \<le> tot"
proof (cases "int n < tot")
  case True
  with assms show ?thesis by (auto simp: select_indices_def)
next
  case False
  with assms(1) obtain step where
    m: "map_exn (\<lambda>k. bind_exn (int_mul k step) (\<lambda>p. Inr (py_round p))) [0..tot - 1] = Inr indices"
    by (auto simp: select_indices_def bind_exn_eq_Inr)
  from map_exn_length[OF m] assms(2) show ?thesis by simp
qed

lemma py_index_Inr_nonneg:
  "py_index xs i = Inr x \<Longrightarrow> 0 \<le> i \<Longrightarrow> i < int (length xs) \<and> x = xs ! nat i"
  by (auto simp: py_index_def split: if_splits)

lemma select_frames_Inr:
  assumes "select_frames frames tot = Inr (selected, indices)"
  shows "select_indices (length frames) tot = Inr indices"
    and "length selected = length indices"
    and "\<And>i. i < length indices \<Longrightarrow>
           0 \<le> indices ! i \<and> indices ! i < int (length frames)
           \<and> selected ! i = frames ! nat (indices ! i)"
proof -
  from assms have si: "select_indices (length frames) tot = Inr indices"
    and m: "map_exn (py_index frames) indices = Inr selected"
    by (auto simp: select_frames_def bind_exn_eq_Inr)
  show "select_indices (length frames) tot = Inr indices" by (rule si)
  from map_exn_length[OF m] show "length selected = length indices" .
  fix i assume i: "i < length indices"
  have nn: "0 \<le> indices ! i" using select_indices_nonneg[OF si] i by simp
  from map_exn_nth[OF m i] have "py_index frames (indices ! i) = Inr (selected ! i)" .
  from py_index_Inr_nonneg[OF this nn] nn
  show "0 \<le> indices ! i \<and> indices ! i < int (length frames) \<and> selected ! i = frames ! nat (indices ! i)"
    by simp
qed


section \<open>The composed sheet\<close>

lemma py_max_Inr: "py_max xs = Inr m \<Longrightarrow> xs \<noteq> [] \<and> m = Max (set xs)"
proof (cases xs)
  case Nil
  assume "py_max xs = Inr m"
  with Nil show ?thesis by simp
next
  case (Cons x ys)
  assume "py_max xs = Inr m"
  with Cons have "m = fold max ys x" by simp
  also have "\<dots> = Max (set (x # ys))" by (rule Max.set_eq_fold[symmetric])
  finally show ?thesis using Cons by simp
qed

lemma compose_Inr:
  assumes "compose a w cols rows selected sizes = Inr sh"
  shows "\<exists>resized.
           sizes \<noteq> []
         \<and> cell_w sh = min (max_width a) (Max (set (map fst sizes)))
         \<and> map_exn (resized_size (cell_w sh)) sizes = Inr resized
         \<and> cell_h sh = Max (set (map snd resized))
         \<and> label_height sh = label_size a + 8
         \<and> sheet_w sh = cols * cell_w sh + (cols + 1) * grid_line_width
         \<and> sheet_h sh = rows * (cell_h sh + label_height sh) + (rows + 1) * grid_line_width
         \<and> map_exn (place_cell a cols (cell_w sh) (cell_h sh) (label_height sh))
               (zip [0..int (length resized) - 1] (zip selected resized)) = Inr (cells sh)"
proof -
  from assms obtain widest where w: "py_max (map fst sizes) = Inr widest"
    by (auto simp: compose_def bind_exn_eq_Inr)
  define cw where "cw = min (max_width a) widest"
  from assms w obtain resized where r: "map_exn (resized_size cw) sizes = Inr resized"
    by (auto simp: compose_def bind_exn_eq_Inr Let_def cw_def)
  from assms w r obtain ch where h: "py_max (map snd resized) = Inr ch"
    by (auto simp: compose_def bind_exn_eq_Inr Let_def cw_def)
  define lh where "lh = label_size a + 8"
  from assms w r h obtain rgb cs where
    cs: "map_exn (place_cell a cols cw ch lh) (zip [0..int (length resized) - 1] (zip selected resized)) = Inr cs"
    and sh: "sh = \<lparr> cell_w = cw, cell_h = ch, label_height = lh,
                    sheet_w = cols * cw + (cols + 1) * grid_line_width,
                    sheet_h = rows * (ch + lh) + (rows + 1) * grid_line_width,
                    grid_rgb = rgb, cells = cs,
                    vlines = map (\<lambda>c. c * cw + c * grid_line_width) [0..cols],
                    hlines = map (\<lambda>r. r * (ch + lh) + r * grid_line_width) [0..rows] \<rparr>"
    by (auto simp: compose_def bind_exn_eq_Inr Let_def cw_def lh_def split: if_splits)
  from py_max_Inr[OF w] have "sizes \<noteq> []" "widest = Max (set (map fst sizes))" by auto
  moreover from py_max_Inr[OF h] have "ch = Max (set (map snd resized))" by simp
  ultimately show ?thesis using r cs by (auto simp: sh cw_def lh_def)
qed

lemma main_saved:
  assumes "Save p sh \<in> set (snd (main a w))"
  obtains cols rows selected indices sizes where
    "parse_grid (python w) (grid a) = Inr (cols, rows)"
    "dir_exists w" "discover w \<noteq> []" "pil_available w"
    "select_frames (discover w) (cols * rows) = Inr (selected, indices)"
    "map (image_size w) (map (path_join (image_dir a)) selected) = map Some sizes"
    "compose a w cols rows (zip indices selected) sizes = Inr sh"
    "p = path_join (image_dir a) (output_filename a)"
    "fst (main a w) = Inr 0"
proof (cases a w rule: main_cases)
  case (bad_grid e)
  with assms show ?thesis by simp
next
  case (no_dir cols rows)
  with assms show ?thesis by simp
next
  case (no_frames cols rows)
  with assms show ?thesis by simp
next
  case (select_failed cols rows e)
  with assms show ?thesis by simp
next
  case (pillow cols rows selected indices)
  from assms pillow(6) have s: "Save p sh \<in> set (snd (render a w cols rows selected indices))" by auto
  show ?thesis
  proof (cases "fst (render a w cols rows selected indices)")
    case (Inl e)
    from render_Inl_no_save[OF Inl] s show ?thesis by blast
  next
    case (Inr rc)
    then have "render a w cols rows selected indices = (Inr rc, snd (render a w cols rows selected indices))"
      by (metis prod.collapse)
    from render_Inr[OF this] obtain sizes sh' where r:
      "map (image_size w) (map (path_join (image_dir a)) selected) = map Some sizes"
      "compose a w cols rows (zip indices selected) sizes = Inr sh'"
      "snd (render a w cols rows selected indices) = map OpenImage (map (path_join (image_dir a)) selected)
         @ [Save (path_join (image_dir a) (output_filename a)) sh']"
      "rc = 0" by blast
    from s r(3) have "p = path_join (image_dir a) (output_filename a)" "sh = sh'" by auto
    with that[OF pillow(1,2,3,5,4) r(1)] r(2,4) Inr pillow(6) show ?thesis by simp
  qed
next
  case (montage cols rows selected indices)
  from assms montage(6) have s: "Save p sh \<in> set (snd (fallback a w cols rows selected))" by auto
  show ?thesis
  proof (cases "fst (fallback a w cols rows selected)")
    case (Inl e)
    from fallback_Inl[OF Inl] s show ?thesis by blast
  next
    case (Inr rc)
    then have "fallback a w cols rows selected = (Inr rc, snd (fallback a w cols rows selected))"
      by (metis prod.collapse)
    from fallback_Inr[OF this] s show ?thesis by auto
  qed
qed

lemma cells_of_compose:
  assumes c: "compose a w cols rows (zip indices selected) sizes = Inr sh"
    and len: "length indices = length selected" "length sizes = length selected"
    and i: "i < length (cells sh)"
  defines "cl \<equiv> cells sh ! i"
  shows "length (cells sh) = length selected"
    and "frame_idx cl = indices ! i" and "frame_name cl = selected ! i"
    and "row cl = int i div cols" and "col cl = int i mod cols"
    and "cell_x cl = col cl * cell_w sh + (col cl + 1) * grid_line_width"
    and "cell_y cl = row cl * (cell_h sh + label_height sh) + (row cl + 1) * grid_line_width"
    and "paste_x cl = cell_x cl + (cell_w sh - img_w cl) div 2"
    and "paste_y cl = cell_y cl + (cell_h sh - img_h cl) div 2"
    and "label_x cl = cell_x cl + 2" and "label_y cl = cell_y cl + cell_h sh + 2"
    and "label_for (fps a) (indices ! i) (selected ! i) = Inr (label_text cl)"
proof -
  from compose_Inr[OF c] obtain resized where
    r: "map_exn (resized_size (cell_w sh)) sizes = Inr resized"
    and m: "map_exn (place_cell a cols (cell_w sh) (cell_h sh) (label_height sh))
               (zip [0..int (length resized) - 1] (zip (zip indices selected) resized)) = Inr (cells sh)"
    by blast
  have lr: "length resized = length selected" using map_exn_length[OF r] len by simp
  have lz: "length (zip [0..int (length resized) - 1] (zip (zip indices selected) resized)) = length selected"
    using lr len by simp
  from map_exn_length[OF m] lz show lc: "length (cells sh) = length selected" by simp
  have i': "i < length selected" using i lc by simp
  have "zip [0..int (length resized) - 1] (zip (zip indices selected) resized) ! i
      = (int i, (indices ! i, selected ! i), resized ! i)"
    using i' lr len by simp
  with map_exn_nth[OF m, of i] i' lz lr len
  have pc: "place_cell a cols (cell_w sh) (cell_h sh) (label_height sh)
          (int i, (indices ! i, selected ! i), resized ! i) = Inr cl" by (simp add: cl_def)
  obtain w h where wh: "resized ! i = (w, h)" by (cases "resized ! i")
  from pc wh obtain lbl where t: "label_for (fps a) (indices ! i) (selected ! i) = Inr lbl"
    and cl: "cl = \<lparr> frame_idx = indices ! i, frame_name = selected ! i,
               row = int i div cols, col = int i mod cols,
               cell_x = (int i mod cols) * cell_w sh + (int i mod cols + 1) * grid_line_width,
               cell_y = (int i div cols) * (cell_h sh + label_height sh)
                        + (int i div cols + 1) * grid_line_width,
               paste_x = (int i mod cols) * cell_w sh + (int i mod cols + 1) * grid_line_width
                         + (cell_w sh - w) div 2,
               paste_y = (int i div cols) * (cell_h sh + label_height sh)
                         + (int i div cols + 1) * grid_line_width + (cell_h sh - h) div 2,
               img_w = w, img_h = h,
               label_x = (int i mod cols) * cell_w sh + (int i mod cols + 1) * grid_line_width + 2,
               label_y = (int i div cols) * (cell_h sh + label_height sh)
                         + (int i div cols + 1) * grid_line_width + cell_h sh + 2,
               label_text = lbl \<rparr>"
    by (auto simp: place_cell_def Let_def bind_exn_eq_Inr)
  show "frame_idx cl = indices ! i" "frame_name cl = selected ! i"
    "row cl = int i div cols" "col cl = int i mod cols"
    "cell_x cl = col cl * cell_w sh + (col cl + 1) * grid_line_width"
    "cell_y cl = row cl * (cell_h sh + label_height sh) + (row cl + 1) * grid_line_width"
    "paste_x cl = cell_x cl + (cell_w sh - img_w cl) div 2"
    "paste_y cl = cell_y cl + (cell_h sh - img_h cl) div 2"
    "label_x cl = cell_x cl + 2" "label_y cl = cell_y cl + cell_h sh + 2"
    "label_for (fps a) (indices ! i) (selected ! i) = Inr (label_text cl)"
    by (simp_all add: cl t)
qed


section \<open>The sample run\<close>

lemma fl_five_halves: "fl (5 / 2) = 5 / 2"
  using fl_exact[of 5 "- 1"] by simp

lemma small_lt_overflow: "(320::rat) < 2 powi 1024" "(180::rat) < 2 powi 1024" "(5::rat) < 2 powi 1024"
  "(1::rat) < 2 powi 1024" "(0::rat) < 2 powi 1024" "(5 / 2 :: rat) < 2 powi 1024"
  by simp_all

lemma sample_grid: "parse_grid (python sample_world) (grid sample_args) = Inr (2, 1)"
  by (simp add: sample_args_def parse_grid_def sample_python_simps ascii_def py_int_def ascii_form_def
      is_space_def skip_prefix_def in_run_def digit_in_def over_digit_limit_def digits_value_def
      bind_exn_def Let_def)

lemma sample_paths:
  "path_str ''frames'' = ''frames''"
  "path_join ''frames'' ''frame_0000.png'' = ''frames/frame_0000.png''"
  "path_join ''frames'' ''frame_0005.png'' = ''frames/frame_0005.png''"
  "path_join ''frames'' ''contact_sheet.png'' = ''frames/contact_sheet.png''"
  by (simp_all add: path_join_def path_str_def path_text_def path_root_def path_parts_def)

lemma sample_listing:
  "listing sample_world = [''frame_0003.png'', ''frame_0000.png'', ''notes.txt'', ''frame_0005.png'',
                           ''frame_0001.png'', ''frame_0004.png'', ''frame_0002.png'']"
  by (simp add: sample_world_def)

lemma sample_frames:
  "discover sample_world = [''frame_0000.png'', ''frame_0001.png'', ''frame_0002.png'',
                            ''frame_0003.png'', ''frame_0004.png'', ''frame_0005.png'']"
  unfolding discover_def sample_listing by code_simp

lemma sample_indices: "select_indices 6 2 = Inr [0, 5]"
  using select_indices_sampled[of 2 6]
  by (simp add: fl_numeral fl_zero rhe_numeral rhe_zero upto_rec1)

lemma sample_selection:
  "select_frames (discover sample_world) (2 * 1)
     = Inr ([''frame_0000.png'', ''frame_0005.png''], [0, 5])"
proof -
  have l: "length [''frame_0000.png'', ''frame_0001.png'', ''frame_0002.png'',
                   ''frame_0003.png'', ''frame_0004.png'', ''frame_0005.png''] = 6" by simp
  have t: "(2::int) * 1 = 2" by simp
  show ?thesis
    unfolding sample_frames select_frames_def l t sample_indices
    by (simp add: py_index_def)
qed

lemma sample_resize: "resized_size 320 (320, 180) = Inr (320, 180)"
  by (simp add: resized_size_def truediv_def int_mul_float_def float_of_int_def fmul_def
      to_double_def float_trunc_def fl_numeral fl_one small_lt_overflow)

lemma sample_color:
  "hex_to_rgb (python sample_world) (grid_color sample_args) = Inr (128, 128, 128)"
  by (simp add: sample_args_def hex_to_rgb_def sample_python_simps ascii_def py_int_def ascii_form_def
      is_space_def skip_prefix_def in_run_def digit_in_def over_digit_limit_def digits_value_def
      bind_exn_def Let_def)

lemma sample_font: "\<not> font_rejected sample_world 12"
  by (simp add: sample_world_def)

lemma str_nat_digit: "n < 10 \<Longrightarrow> str_nat n = [''0123456789'' ! n]"
  by (subst str_nat.simps) simp

lemma sample_label0: "label_for (Some 2) 0 name = Inr (name @ '' (0.00s)'')"
  by (simp add: label_for_def truediv_def to_double_def fl_zero format_2f_def rhe_zero
      str_nat_digit small_lt_overflow)

lemma sample_label5: "label_for (Some 2) 5 name = Inr (name @ '' (2.50s)'')"
  by (simp add: label_for_def truediv_def to_double_def fl_five_halves format_2f_def rhe_numeral
      str_nat_digit small_lt_overflow)

lemma sample_compose:
  "compose sample_args sample_world 2 1 [(0, ''frame_0000.png''), (5, ''frame_0005.png'')]
       [(320, 180), (320, 180)]
     = Inr sample_sheet"
proof -
  have c: "hex_to_rgb (python sample_world) (ascii ''808080'') = Inr (128, 128, 128)"
    using sample_color by (simp add: sample_args_def)
  show ?thesis
    using sample_font
    by (simp add: compose_def c sample_resize place_cell_def sample_label0 sample_label5
        sample_args_def sample_sheet_def grid_line_width_def upto_rec1 Let_def)
qed

lemma sample_run:
  "main sample_args sample_world =
     (Inr 0, [IsDir ''frames'', ImportPIL, Glob ''frames'',
              OpenImage ''frames/frame_0000.png'', OpenImage ''frames/frame_0005.png'',
              Save ''frames/contact_sheet.png'' sample_sheet])"
proof -
  have f: "discover sample_world \<noteq> []" by (simp add: sample_frames)
  have d: "dir_exists sample_world" by (simp add: sample_world_def)
  have r: "render sample_args sample_world 2 1 [''frame_0000.png'', ''frame_0005.png''] [0, 5]
      = (Inr 0, [OpenImage ''frames/frame_0000.png'', OpenImage ''frames/frame_0005.png'',
                 Save ''frames/contact_sheet.png'' sample_sheet])"
  proof -
    have o: "save_outcome sample_world ''frames/contact_sheet.png'' = SaveCompletes"
      "image_size sample_world ''frames/frame_0000.png'' = Some (320, 180)"
      "image_size sample_world ''frames/frame_0005.png'' = Some (320, 180)"
      by (simp_all add: sample_world_def)
    have n: "image_dir sample_args = ''frames''" "output_filename sample_args = ''contact_sheet.png''"
      by (simp_all add: output_filename_def sample_args_def)
    show ?thesis using sample_compose by (simp add: render_def n sample_paths o)
  qed
  have p: "pil_available sample_world" by (simp add: sample_world_def)
  have n: "image_dir sample_args = ''frames''" by (simp add: sample_args_def)
  show ?thesis
    using main_run[OF sample_grid d f sample_selection] r p
    by (simp add: n sample_paths)
qed


lemma zero_rate_compose:
  "compose (sample_args \<lparr> fps := Some 0 \<rparr>) sample_world 2 1
     [(0, ''frame_0000.png''), (5, ''frame_0005.png'')] [(320, 180), (320, 180)]
     = Inr zero_rate_sheet"
proof -
  have c: "hex_to_rgb (python sample_world) (ascii ''808080'') = Inr (128, 128, 128)"
    using sample_color by (simp add: sample_args_def)
  show ?thesis
    using sample_font
    by (simp add: compose_def c sample_resize place_cell_def label_for_def zero_rate_sheet_def
        sample_args_def sample_sheet_def grid_line_width_def upto_rec1 Let_def)
qed

lemma zero_rate_run:
  "main (sample_args \<lparr> fps := Some 0 \<rparr>) sample_world =
     (Inr 0, [IsDir ''frames'', ImportPIL, Glob ''frames'',
              OpenImage ''frames/frame_0000.png'', OpenImage ''frames/frame_0005.png'',
              Save ''frames/contact_sheet.png'' zero_rate_sheet])"
proof -
  have g: "parse_grid (python sample_world) (grid (sample_args \<lparr> fps := Some 0 \<rparr>)) = Inr (2, 1)"
    using sample_grid by (simp add: sample_args_def)
  have f: "discover sample_world \<noteq> []" by (simp add: sample_frames)
  have d: "dir_exists sample_world" by (simp add: sample_world_def)
  have r: "render (sample_args \<lparr> fps := Some 0 \<rparr>) sample_world 2 1
             [''frame_0000.png'', ''frame_0005.png''] [0, 5]
      = (Inr 0, [OpenImage ''frames/frame_0000.png'', OpenImage ''frames/frame_0005.png'',
                 Save ''frames/contact_sheet.png'' zero_rate_sheet])"
  proof -
    have o: "save_outcome sample_world ''frames/contact_sheet.png'' = SaveCompletes"
      "image_size sample_world ''frames/frame_0000.png'' = Some (320, 180)"
      "image_size sample_world ''frames/frame_0005.png'' = Some (320, 180)"
      by (simp_all add: sample_world_def)
    have n: "image_dir (sample_args \<lparr> fps := Some 0 \<rparr>) = ''frames''"
      "output_filename (sample_args \<lparr> fps := Some 0 \<rparr>) = ''contact_sheet.png''"
      by (simp_all add: output_filename_def sample_args_def)
    show ?thesis using zero_rate_compose by (simp add: render_def n sample_paths o)
  qed
  have p: "pil_available sample_world" by (simp add: sample_world_def)
  have n: "image_dir (sample_args \<lparr> fps := Some 0 \<rparr>) = ''frames''"
    by (simp add: sample_args_def)
  show ?thesis
    using main_run[OF g d f sample_selection] r p
    by (simp add: n sample_paths)
qed

lemma int_div_less:
  assumes "0 < c" "i < c * r"
  shows "i div c < (r::int)"
proof (rule ccontr)
  assume "\<not> i div c < r"
  then have "r \<le> i div c" by simp
  then have "c * r \<le> c * (i div c)" using assms(1) by (simp add: mult_left_mono)
  moreover have "0 \<le> i mod c" using assms(1) by simp
  moreover have "c * (i div c) + i mod c = i" by simp
  ultimately show False using assms(2) by linarith
qed

text \<open>
  Claim C4. In every run that saves a sheet, the width of the sheet is
  \<open>cols * cell_w + (cols + 1) * grid_line_width\<close>, where the cell width is the smaller of
  \<^verbatim>\<open>--max-width\<close> and the width of the widest selected frame, and the line width is \<open>1\<close>.
\<close>

theorem sheet_width:
  assumes "Save p sh \<in> set (snd (main a w))" "parse_grid (python w) (grid a) = Inr (cols, rows)"
  shows "sheet_w sh = cols * cell_w sh + (cols + 1) * grid_line_width
       \<and> grid_line_width = 1
       \<and> (\<exists>selected indices sizes.
             select_frames (discover w) (cols * rows) = Inr (selected, indices)
           \<and> map (image_size w) (map (path_join (image_dir a)) selected) = map Some sizes
           \<and> sizes \<noteq> []
           \<and> cell_w sh = min (max_width a) (Max (set (map fst sizes))))"
proof -
  from assms(1) obtain cols' rows' selected indices sizes where
    g: "parse_grid (python w) (grid a) = Inr (cols', rows')"
    and s: "select_frames (discover w) (cols' * rows') = Inr (selected, indices)"
    and o: "map (image_size w) (map (path_join (image_dir a)) selected) = map Some sizes"
    and c: "compose a w cols' rows' (zip indices selected) sizes = Inr sh"
    by (rule main_saved)
  from g assms(2) have eq: "cols' = cols" "rows' = rows" by simp_all
  from compose_Inr[OF c] have "sizes \<noteq> []"
    "cell_w sh = min (max_width a) (Max (set (map fst sizes)))"
    "sheet_w sh = cols' * cell_w sh + (cols' + 1) * grid_line_width" by blast+
  with s o eq show ?thesis by (auto simp: grid_line_width_def)
qed

theorem sheet_width_witness:
  "Save ''frames/contact_sheet.png'' sample_sheet \<in> set (snd (main sample_args sample_world))
   \<and> parse_grid (python sample_world) (grid sample_args) = Inr (2, 1)
   \<and> sheet_w sample_sheet = 2 * 320 + (2 + 1) * 1
   \<and> cell_w sample_sheet = min (max_width sample_args) 320"
  using sheet_width[of "''frames/contact_sheet.png''" sample_sheet sample_args sample_world 2 1]
    sample_run sample_grid
  by (simp add: sample_sheet_def sample_args_def)

text \<open>
  Claim C5. In every run that saves a sheet, the frame at position \<open>i\<close> of the selection is
  drawn in row \<open>i div cols\<close> and column \<open>i mod cols\<close> of the grid, which lie inside the grid,
  and its cell starts at the pixel that this row and column give.
\<close>

theorem row_major_placement:
  assumes "Save p sh \<in> set (snd (main a w))" "parse_grid (python w) (grid a) = Inr (cols, rows)"
    and "i < length (cells sh)"
  shows "row (cells sh ! i) = int i div cols \<and> col (cells sh ! i) = int i mod cols
       \<and> 0 \<le> row (cells sh ! i) \<and> row (cells sh ! i) < rows
       \<and> 0 \<le> col (cells sh ! i) \<and> col (cells sh ! i) < cols
       \<and> cell_x (cells sh ! i)
           = col (cells sh ! i) * cell_w sh + (col (cells sh ! i) + 1) * grid_line_width
       \<and> cell_y (cells sh ! i)
           = row (cells sh ! i) * (cell_h sh + label_height sh)
             + (row (cells sh ! i) + 1) * grid_line_width
       \<and> (\<exists>selected indices.
             select_frames (discover w) (cols * rows) = Inr (selected, indices)
           \<and> length (cells sh) = length selected
           \<and> frame_name (cells sh ! i) = selected ! i)"
proof -
  from assms(1) obtain cols' rows' selected indices sizes where
    g: "parse_grid (python w) (grid a) = Inr (cols', rows')"
    and s: "select_frames (discover w) (cols' * rows') = Inr (selected, indices)"
    and o: "map (image_size w) (map (path_join (image_dir a)) selected) = map Some sizes"
    and c: "compose a w cols' rows' (zip indices selected) sizes = Inr sh"
    by (rule main_saved)
  from g assms(2) have eq: "cols' = cols" "rows' = rows" by simp_all
  note s = s[unfolded eq] and c = c[unfolded eq]
  have pos: "0 < cols" "0 < rows" using parse_grid_positive[OF assms(2)] by simp_all
  have li: "length indices = length selected" using select_frames_Inr(2)[OF s] by simp
  have ls: "length sizes = length selected" using arg_cong[OF o, of length] by simp
  note cc = cells_of_compose[OF c li ls assms(3)]
  have tot: "0 < cols * rows" using pos by simp
  have "int (length indices) \<le> cols * rows"
    using select_indices_length[OF select_frames_Inr(1)[OF s] tot] .
  then have "int i < cols * rows" using assms(3) cc(1) li by simp
  then have rlt: "int i div cols < rows" using pos(1) by (intro int_div_less)
  have r0: "0 \<le> int i div cols" using pos(1) by (simp add: pos_imp_zdiv_nonneg_iff)
  have c0: "0 \<le> int i mod cols" "int i mod cols < cols" using pos(1) by simp_all
  show ?thesis using cc(1,3,4,5,6,7) rlt r0 c0 s by auto
qed

theorem row_major_placement_witness:
  "Save ''frames/contact_sheet.png'' sample_sheet \<in> set (snd (main sample_args sample_world))
   \<and> parse_grid (python sample_world) (grid sample_args) = Inr (2, 1)
   \<and> (1::nat) < length (cells sample_sheet)
   \<and> row (cells sample_sheet ! 1) = 0 \<and> col (cells sample_sheet ! 1) = 1
   \<and> cell_x (cells sample_sheet ! 1) = 322 \<and> cell_y (cells sample_sheet ! 1) = 1
   \<and> frame_name (cells sample_sheet ! 1) = ''frame_0005.png''"
  using row_major_placement[of "''frames/contact_sheet.png''" sample_sheet sample_args
      sample_world 2 1 1] sample_run sample_grid
  by (simp add: sample_sheet_def)

text \<open>
  Claim C6, as stated, fails when the frame rate supplied is \<open>0\<close>: the test
  \<^verbatim>\<open>if args.fps:\<close> takes \<open>0\<close> for no frame rate, and the run with \<^verbatim>\<open>--fps 0\<close> draws the file
  names without any time.
\<close>

theorem zero_frame_rate_counterexample:
  "fps (sample_args \<lparr> fps := Some 0 \<rparr>) = Some 0
   \<and> main (sample_args \<lparr> fps := Some 0 \<rparr>) sample_world =
       (Inr 0, [IsDir ''frames'', ImportPIL, Glob ''frames'',
                OpenImage ''frames/frame_0000.png'', OpenImage ''frames/frame_0005.png'',
                Save ''frames/contact_sheet.png'' zero_rate_sheet])
   \<and> map label_text (cells zero_rate_sheet) = [''frame_0000.png'', ''frame_0005.png'']"
  using zero_rate_run by (simp add: zero_rate_sheet_def sample_sheet_def)

text \<open>
  Claim C6, amended. In every run that saves a sheet, each cell is labelled with the file name
  of its frame, and the index kept with the cell is the position of that frame in the full
  sorted frame list. With a frame rate other than \<open>0\<close> the label continues with a space and,
  in parentheses, the quotient of that index by the frame rate, printed with two decimals and
  followed by \<open>s\<close>; without a frame rate, or with the frame rate \<open>0\<close>, the label is the file
  name alone. Frame rate 2 and index 5 give the time text \<open>2.50s\<close>.
\<close>

theorem cell_labels:
  assumes "Save p sh \<in> set (snd (main a w))" "i < length (cells sh)"
  shows "0 \<le> frame_idx (cells sh ! i) \<and> frame_idx (cells sh ! i) < int (length (discover w))
       \<and> frame_name (cells sh ! i) = discover w ! nat (frame_idx (cells sh ! i))
       \<and> (case fps a of
             None \<Rightarrow> label_text (cells sh ! i) = frame_name (cells sh ! i)
           | Some rate \<Rightarrow>
               if rate = 0 then label_text (cells sh ! i) = frame_name (cells sh ! i)
               else \<exists>t. truediv (frame_idx (cells sh ! i)) rate = Inr t
                      \<and> label_text (cells sh ! i)
                          = frame_name (cells sh ! i) @ '' ('' @ format_2f t @ ''s)'')"
proof -
  from assms(1) obtain cols rows selected indices sizes where
    s: "select_frames (discover w) (cols * rows) = Inr (selected, indices)"
    and o: "map (image_size w) (map (path_join (image_dir a)) selected) = map Some sizes"
    and c: "compose a w cols rows (zip indices selected) sizes = Inr sh"
    by (rule main_saved)
  have li: "length indices = length selected" using select_frames_Inr(2)[OF s] by simp
  have ls: "length sizes = length selected" using arg_cong[OF o, of length] by simp
  note cc = cells_of_compose[OF c li ls assms(2)]
  have i: "i < length indices" using assms(2) cc(1) li by simp
  note sf = select_frames_Inr(3)[OF s i]
  have lab: "label_for (fps a) (frame_idx (cells sh ! i)) (frame_name (cells sh ! i))
      = Inr (label_text (cells sh ! i))" using cc(12) cc(2,3) by simp
  have "case fps a of
             None \<Rightarrow> label_text (cells sh ! i) = frame_name (cells sh ! i)
           | Some rate \<Rightarrow>
               if rate = 0 then label_text (cells sh ! i) = frame_name (cells sh ! i)
               else \<exists>t. truediv (frame_idx (cells sh ! i)) rate = Inr t
                      \<and> label_text (cells sh ! i)
                          = frame_name (cells sh ! i) @ '' ('' @ format_2f t @ ''s)''"
    using lab by (auto simp: label_for_def bind_exn_eq_Inr split: option.splits)
  then show ?thesis using sf cc(2,3) by simp
qed

theorem cell_labels_witness:
  "Save ''frames/contact_sheet.png'' sample_sheet \<in> set (snd (main sample_args sample_world))
   \<and> (1::nat) < length (cells sample_sheet)
   \<and> fps sample_args = Some 2
   \<and> frame_idx (cells sample_sheet ! 1) = 5
   \<and> discover sample_world ! 5 = ''frame_0005.png''
   \<and> (\<exists>t. truediv 5 2 = Inr t
          \<and> ''frame_0005.png (2.50s)'' = ''frame_0005.png'' @ '' ('' @ format_2f t @ ''s)'')"
  using cell_labels[of "''frames/contact_sheet.png''" sample_sheet sample_args sample_world 1]
    sample_run
  by (simp add: sample_sheet_def sample_args_def sample_frames)


section \<open>Failures and the output file\<close>












subsection \<open>The sample runs that fail\<close>












section \<open>Order of the directory listing\<close>

lemma discover_permuted:
  assumes "distinct (listing w)" "distinct ys" "set ys = set (listing w)"
  shows "discover (w \<lparr> listing := ys \<rparr>) = discover w"
proof -
  define P where "P = (\<lambda>name. endswith name ''.png'')"
  have "sort (filter P ys) = sort (filter P (listing w))"
  proof (rule sorted_distinct_set_unique)
    show "sorted (sort (filter P ys))" "sorted (sort (filter P (listing w)))" by simp_all
    show "distinct (sort (filter P ys))" "distinct (sort (filter P (listing w)))"
      using assms(1,2) by simp_all
    show "set (sort (filter P ys)) = set (sort (filter P (listing w)))"
      using assms(3) by simp
  qed
  then show ?thesis by (simp add: discover_def P_def)
qed

lemma open_images_listing [simp]: "open_images (w \<lparr> listing := ys \<rparr>) ps = open_images w ps"
  by (induction ps) (simp_all cong: option.case_cong)

lemma compose_listing [simp]: "compose a (w \<lparr> listing := ys \<rparr>) = compose a w"
  by (simp add: fun_eq_iff compose_def Let_def cong: if_cong)

lemma render_listing [simp]:
  "render a (w \<lparr> listing := ys \<rparr>) cols rows selected indices
     = render a w cols rows selected indices"
  by (simp add: render_def Let_def cong: prod.case_cong sum.case_cong if_cong)

lemma fallback_listing [simp]:
  "fallback a (w \<lparr> listing := ys \<rparr>) cols rows selected = fallback a w cols rows selected"
  by (simp add: fallback_def Let_def cong: option.case_cong if_cong)

text \<open>
  Claim C9. The result of a run, its actions and the sheet it saves (selected frames and their
  indices, cell size, sheet size, cell positions) are the same for any two orders in which the
  operating system lists the entries of an unchanged directory: with the same arguments, the
  layout depends on the directory only through its sorted frame list.
\<close>

theorem layout_independent_of_listing_order:
  assumes "distinct (listing w)" "distinct ys" "set ys = set (listing w)"
  shows "main a (w \<lparr> listing := ys \<rparr>) = main a w"
  using discover_permuted[OF assms]
  by (simp add: main_def Let_def cong: prod.case_cong sum.case_cong if_cong)

theorem layout_independent_of_listing_order_witness:
  "distinct (listing sample_world)
   \<and> distinct [''frame_0000.png'', ''frame_0001.png'', ''frame_0002.png'', ''frame_0003.png'',
               ''frame_0004.png'', ''frame_0005.png'', ''notes.txt'']
   \<and> set [''frame_0000.png'', ''frame_0001.png'', ''frame_0002.png'', ''frame_0003.png'',
          ''frame_0004.png'', ''frame_0005.png'', ''notes.txt''] = set (listing sample_world)
   \<and> main sample_args
        (sample_world \<lparr> listing := [''frame_0000.png'', ''frame_0001.png'', ''frame_0002.png'',
            ''frame_0003.png'', ''frame_0004.png'', ''frame_0005.png'', ''notes.txt''] \<rparr>)
       = (Inr 0, [IsDir ''frames'', ImportPIL, Glob ''frames'',
                  OpenImage ''frames/frame_0000.png'', OpenImage ''frames/frame_0005.png'',
                  Save ''frames/contact_sheet.png'' sample_sheet])"
proof -
  have d: "distinct (listing sample_world)" by (simp add: sample_world_def)
  have d': "distinct [''frame_0000.png'', ''frame_0001.png'', ''frame_0002.png'', ''frame_0003.png'',
               ''frame_0004.png'', ''frame_0005.png'', ''notes.txt'']" by simp
  have s: "set [''frame_0000.png'', ''frame_0001.png'', ''frame_0002.png'', ''frame_0003.png'',
          ''frame_0004.png'', ''frame_0005.png'', ''notes.txt''] = set (listing sample_world)"
    by (simp add: sample_world_def insert_commute)
  from layout_independent_of_listing_order[OF d d' s, of sample_args] sample_run d d' s
  show ?thesis by simp
qed

section \<open>The output file among the frames\<close>

lemma endswith_append: "endswith s suf \<Longrightarrow> endswith (xs @ s) suf"
  by (auto simp: endswith_def)

lemma default_name_png:
  assumes "output_arg a = None \<or> output_arg a = Some []"
  shows "endswith (output_filename a) ''.png''"
proof -
  have "endswith ''_sheet.png'' ''.png''" "endswith ''contact_sheet.png'' ''.png''"
    by (simp_all add: endswith_def)
  then show ?thesis using assms endswith_append[of "''_sheet.png''" "''.png''"]
    by (auto simp: output_filename_def split: option.splits)
qed

lemma discover_set: "set (discover w) = {name \<in> set (listing w). endswith name ''.png''}"
  by (auto simp: discover_def)

lemma place_cell_jpg: "place_cell jpg_args = place_cell sample_args"
  by (simp add: fun_eq_iff place_cell_def jpg_args_def)

lemma compose_jpg: "compose jpg_args = compose sample_args"
proof -
  have e: "max_width jpg_args = max_width sample_args" "label_size jpg_args = label_size sample_args"
    "grid_color jpg_args = grid_color sample_args" by (simp_all add: jpg_args_def)
  show ?thesis unfolding fun_eq_iff compose_def place_cell_jpg e by simp
qed

lemma jpg_run:
  "main jpg_args sample_world =
     (Inr 0, [IsDir ''frames'', ImportPIL, Glob ''frames'',
              OpenImage ''frames/frame_0000.png'', OpenImage ''frames/frame_0005.png'',
              Save ''frames/sheet.jpg'' sample_sheet])"
proof -
  have g: "parse_grid (python sample_world) (grid jpg_args) = Inr (2, 1)"
    using sample_grid by (simp add: jpg_args_def)
  have f: "discover sample_world \<noteq> []" by (simp add: sample_frames)
  have d: "dir_exists sample_world" by (simp add: sample_world_def)
  have i: "image_dir jpg_args = ''frames''" by (simp add: jpg_args_def sample_args_def)
  have o: "output_filename jpg_args = ''sheet.jpg''"
    by (simp add: output_filename_def jpg_args_def)
  have j: "path_join ''frames'' ''sheet.jpg'' = ''frames/sheet.jpg''"
    by (simp add: path_join_def path_str_def path_text_def path_root_def path_parts_def)
  have v: "save_outcome sample_world ''frames/sheet.jpg'' = SaveCompletes"
    "image_size sample_world ''frames/frame_0000.png'' = Some (320, 180)"
    "image_size sample_world ''frames/frame_0005.png'' = Some (320, 180)"
    by (simp_all add: sample_world_def)
  have r: "render jpg_args sample_world 2 1 [''frame_0000.png'', ''frame_0005.png''] [0, 5]
      = (Inr 0, [OpenImage ''frames/frame_0000.png'', OpenImage ''frames/frame_0005.png'',
                 Save ''frames/sheet.jpg'' sample_sheet])"
    using sample_compose by (simp add: render_def i o j sample_paths v compose_jpg)
  have p: "pil_available sample_world" by (simp add: sample_world_def)
  show ?thesis
    using main_run[OF g d f sample_selection] r p
    by (simp add: i sample_paths)
qed

lemma single_component:
  assumes "CHR ''/'' \<notin> set name" "endswith name ''.png''"
  shows "path_root name = [] \<and> path_parts name = [name] \<and> name \<noteq> ''..''"
proof -
  have l: "4 \<le> length name" using assms(2) by (simp add: endswith_def)
  then have ne: "name \<noteq> []" "name \<noteq> ''.''" "name \<noteq> ''..''" by auto
  have "take 1 name \<noteq> ''/''" using assms(1) ne(1) by (cases name) auto
  moreover have "take 2 name \<noteq> ''//''" using assms(1) ne(1) by (cases name) auto
  ultimately have "path_root name = []" by (simp add: path_root_def)
  moreover have "split_on CHR ''/'' name = [name]" using assms(1) by (simp add: split_on_single)
  then have "path_parts name = [name]" using ne by (simp add: path_parts_def)
  ultimately show ?thesis using ne by simp
qed

lemma output_entry_single:
  "CHR ''/'' \<notin> set (output_filename a) \<Longrightarrow> endswith (output_filename a) ''.png'' \<Longrightarrow>
     output_entry a = Some (output_filename a)"
  using single_component[of "output_filename a"] by (simp add: output_entry_def)

lemma listing_after_entry:
  "writes_output (main a w) \<Longrightarrow> output_entry a = Some name \<Longrightarrow> name \<in> set (listing_after a w)"
  by (simp add: listing_after_def)

text \<open>
  An output name that pathlib brings to a single component is an entry of the frame directory
  as well: after the sample run asked to write \<^verbatim>\<open>./sheet.png\<close>, the directory holds
  \<^verbatim>\<open>sheet.png\<close>.
\<close>

lemma dot_slash_output:
  "output_entry (sample_args \<lparr> output_arg := Some ''./sheet.png'' \<rparr>) = Some ''sheet.png''
   \<and> path_join ''frames/'' ''./sheet.png'' = ''frames/sheet.png''"
  by (simp add: output_entry_def output_filename_def path_join_def path_str_def path_text_def
      path_root_def path_parts_def)

text \<open>
  Claim C10, as stated, fails for an explicit output name that does not end in \<open>.png\<close>: the
  run asked for \<^verbatim>\<open>--output sheet.jpg\<close> succeeds, the file is a new entry of the frame
  directory, and the frame discovery of the next run does not return it.
\<close>

theorem jpg_output_counterexample:
  "output_arg jpg_args = Some ''sheet.jpg''
   \<and> fst (main jpg_args sample_world) = Inr 0
   \<and> output_filename jpg_args = ''sheet.jpg''
   \<and> \<not> endswith (output_filename jpg_args) ''.png''
   \<and> ''sheet.jpg'' \<in> set (listing_after jpg_args sample_world)
   \<and> ''sheet.jpg'' \<notin> set (discover (sample_world \<lparr> listing := listing_after jpg_args sample_world \<rparr>))"
proof -
  have o: "output_filename jpg_args = ''sheet.jpg''" "output_arg jpg_args = Some ''sheet.jpg''"
    by (simp_all add: output_filename_def jpg_args_def)
  have e: "output_entry jpg_args = Some ''sheet.jpg''"
    by (simp add: output_entry_def o path_root_def path_parts_def)
  have l: "listing_after jpg_args sample_world = listing sample_world @ [''sheet.jpg'']"
    using jpg_run by (simp add: listing_after_def e writes_output_def sample_listing)
  show ?thesis
    using jpg_run by (simp add: o l discover_set endswith_def sample_listing)
qed

text \<open>
  Claim C10, amended. Frame discovery returns the entries of the input directory whose names
  end in \<open>.png\<close>, each once for each time it is listed, in sorted order, and leaves none out:
  the script's own output is not set apart. The two default output names end in \<open>.png\<close>; an
  explicit name is used as it is given. When a run has written its output, and the output
  name is a single path component that ends in \<open>.png\<close>, the frame discovery of a later run
  returns the output sheet as one of the frames.
\<close>

theorem output_rediscovered:
  "set (discover w) = {name \<in> set (listing w). endswith name ''.png''}
   \<and> sorted (discover w)
   \<and> length (discover w) = length (filter (\<lambda>name. endswith name ''.png'') (listing w))
   \<and> (output_arg a = None \<or> output_arg a = Some [] \<longrightarrow> endswith (output_filename a) ''.png'')
   \<and> (writes_output (main a w) \<and> CHR ''/'' \<notin> set (output_filename a)
        \<and> endswith (output_filename a) ''.png''
        \<longrightarrow> output_filename a \<in> set (discover (w \<lparr> listing := listing_after a w \<rparr>)))"
proof -
  have "output_filename a \<in> set (listing_after a w)"
    if "writes_output (main a w)" "CHR ''/'' \<notin> set (output_filename a)"
      "endswith (output_filename a) ''.png''"
    using that listing_after_entry[OF that(1) output_entry_single[OF that(2,3)]] by simp
  then show ?thesis using default_name_png[of a]
    by (auto simp: discover_set) (simp_all add: discover_def)
qed

theorem output_rediscovered_witness:
  "output_arg sample_args = None
   \<and> writes_output (main sample_args sample_world)
   \<and> output_filename sample_args = ''contact_sheet.png''
   \<and> CHR ''/'' \<notin> set (output_filename sample_args)
   \<and> endswith (output_filename sample_args) ''.png''
   \<and> ''contact_sheet.png''
       \<in> set (discover (sample_world \<lparr> listing := listing_after sample_args sample_world \<rparr>))"
  using output_rediscovered[of sample_world sample_args] sample_run
  by (simp add: writes_output_def output_filename_def endswith_def sample_args_def)

end
